theory Spec2Isabelle
  imports Main
begin

section \<open>Values, errors and log lines\<close>

text \<open>
  JavaScript values that travel through the wrapper: the payload of an \<open>end\<close> event, the
  argument of \<open>setConfigFile\<close>, and what a future is resolved with (\<open>null\<close>, \<open>true\<close>, the
  text of a file, a payload).
\<close>

datatype jsval =
    JNull
  | JBool bool
  | JNum int
  | JStr string
  | JArr "jsval list"
  | JObj "(string \<times> jsval) list"

text \<open>The \<open>typeof\<close> operator on these values.\<close>

fun typeof :: "jsval \<Rightarrow> string" where
  "typeof JNull = ''object''"
| "typeof (JBool b) = ''boolean''"
| "typeof (JNum n) = ''number''"
| "typeof (JStr s) = ''string''"
| "typeof (JArr xs) = ''object''"
| "typeof (JObj kvs) = ''object''"

text \<open>
  A natural number as a template string and \<open>JSON.stringify\<close> print it: in decimal, without
  leading zeros.
\<close>

definition digit_char :: "nat \<Rightarrow> char" where
  "digit_char d = char_of (48 + d)"

function decimal :: "nat \<Rightarrow> string" where
  "decimal n = (if n < 10 then [digit_char n] else decimal (n div 10) @ [digit_char (n mod 10)])"
  by pat_completeness auto
termination
  by (relation "measure id") auto

declare decimal.simps [simp del]

text \<open>\<open>interface IError { code: string; message: string }\<close>\<close>

record IError =
  code :: string
  message :: string

text \<open>Exceptions the runtime itself throws.\<close>

datatype exn = SyntaxError string | TypeError string

text \<open>
  What a future is rejected with: an error object of the command or of the file system, an
  exception caught by a \<open>catch\<close>, or \<open>null\<close> (the value of the \<open>error\<close> parameter of a
  read callback whose read succeeded).
\<close>

datatype reason = RNull | RError IError | RExn exn

text \<open>
  A progress notification of a Bower command. \<open>log.data.resolver\<close> is present on the
  notifications that carry a resolver (\<open>cached\<close> ones); reading it where it is absent throws.
\<close>

record resolver =
  resolver_name :: string
  resolver_source :: string
  resolver_target :: string

record bower_log =
  log_id :: string
  log_message :: string
  log_resolver :: "resolver option"

text \<open>
  Modelled from the spec: the logger (\<open>../utils/Logger\<close>) is not among the sources. The spec
  describes it as "a structured logger exposing leveled calls (trace/info/warn/error) and a
  continuation-style still-working log marker". A leveled call appends one line made of its
  arguments; \<open>info\<close> returns the continuation, and calling the continuation appends to the log
  as well. \<open>logger.file.info\<close> is the file channel of the same logger.
\<close>

datatype level = LTrace | LInfo | LWarn | LError | LFileInfo

datatype logarg = Txt string | Undefined | LogObj bower_log

datatype log_entry = Line level "logarg list" | Continue "logarg list"

section \<open>The deferred of a call\<close>

text \<open>
  \<open>q.defer()\<close>: a deferred is pending until the first \<open>resolve\<close> or \<open>reject\<close>; every later
  \<open>resolve\<close> or \<open>reject\<close> is ignored.
\<close>

datatype promise_state = Pending | Resolved jsval | Rejected reason

text \<open>
  The variables one call of a \<open>BowerManager\<close> method closes over: its deferred, its
  \<open>continueLog\<close> (\<open>False\<close> once it has been set to \<open>null\<close>), the lines logged so far, and the
  exceptions its handlers have thrown back to the emitter.
\<close>

record call =
  promise :: promise_state
  continueLog :: bool
  logged :: "log_entry list"
  thrown :: "exn list"

definition defer_resolve :: "jsval \<Rightarrow> call \<Rightarrow> call" where
  "defer_resolve v s =
     (case promise s of Pending \<Rightarrow> s\<lparr>promise := Resolved v\<rparr> | _ \<Rightarrow> s)"

definition defer_reject :: "reason \<Rightarrow> call \<Rightarrow> call" where
  "defer_reject r s =
     (case promise s of Pending \<Rightarrow> s\<lparr>promise := Rejected r\<rparr> | _ \<Rightarrow> s)"

definition logger_line :: "level \<Rightarrow> logarg list \<Rightarrow> call \<Rightarrow> call" where
  "logger_line l args s = s\<lparr>logged := logged s @ [Line l args]\<rparr>"

definition continue_line :: "logarg list \<Rightarrow> call \<Rightarrow> call" where
  "continue_line args s = s\<lparr>logged := logged s @ [Continue args]\<rparr>"

definition throw :: "exn \<Rightarrow> call \<Rightarrow> call" where
  "throw e s = s\<lparr>thrown := thrown s @ [e]\<rparr>"

text \<open>
  \<open>let defer = q.defer(), continueLog = this.logger.info("BowerManager", msg)\<close>: the state
  every method starts from.
\<close>

definition begin_call :: "string \<Rightarrow> call" where
  "begin_call msg =
     \<lparr>promise = Pending, continueLog = True,
      logged = [Line LInfo [Txt ''BowerManager'', Txt msg]], thrown = []\<rparr>"

section \<open>Commands and their events\<close>

text \<open>
  A Bower command emits \<open>log\<close>, \<open>error\<close> and \<open>end\<close> events; the handlers registered with
  \<open>.on\<close> run once per event, in the order of emission.
\<close>

datatype event = Log bower_log | Error IError | End jsval

fun emit :: "(event \<Rightarrow> call \<Rightarrow> call) \<Rightarrow> event list \<Rightarrow> call \<Rightarrow> call" where
  "emit h [] s = s"
| "emit h (e # es) s = emit h es (h e s)"

text \<open>The states of a call: before any event, and after each event.\<close>

fun states :: "(event \<Rightarrow> call \<Rightarrow> call) \<Rightarrow> event list \<Rightarrow> call \<Rightarrow> call list" where
  "states h [] s = [s]"
| "states h (e # es) s = s # states h es (h e s)"

subsection \<open>installAll\<close>

definition installAll_on_log :: "bower_log \<Rightarrow> call \<Rightarrow> call" where
  "installAll_on_log l s =
     (let s1 = logger_line LTrace
                 [Txt ''BowerManager'', Txt ''^cINSTALL^:'',
                  Txt (''id: '' @ log_id l @ '', message: '' @ log_message l)] s;
          file_line = logger_line LFileInfo
                 [Txt ''BowerManager'', Txt ''^cINSTALL^:'',
                  Txt (''id: '' @ log_id l @ '', message: '' @ log_message l), LogObj l]
      in if log_id l = ''cached'' then
           (case log_resolver l of
              None \<Rightarrow> throw (TypeError ''Cannot read property of undefined'') s1
            | Some r \<Rightarrow>
                file_line (logger_line LTrace
                  [Txt ''BowerManager'', Txt ''^cINSTALL^:'',
                   Txt (''Found cache, package: '' @ resolver_name r @ '', source: ''
                        @ resolver_source r @ '', target: '' @ resolver_target r)] s1))
         else file_line s1)"

definition installAll_on_error :: "IError \<Rightarrow> call \<Rightarrow> call" where
  "installAll_on_error e s =
     defer_reject (RError e)
       (logger_line LError
          [Txt ''BowerManager'', Txt ''^rfail^:'',
           Txt (''on uninstall all packages. Code: '' @ code e @ '', details: '' @ message e)] s)"

definition installAll_on_end :: "jsval \<Rightarrow> call \<Rightarrow> call" where
  "installAll_on_end result s =
     defer_resolve result (if continueLog s then continue_line [Txt ''^gok^:''] s else s)"

fun installAll_on :: "event \<Rightarrow> call \<Rightarrow> call" where
  "installAll_on (Log l) s = installAll_on_log l s"
| "installAll_on (Error e) s = installAll_on_error e s"
| "installAll_on (End r) s = installAll_on_end r s"

definition installAll_begin :: call where
  "installAll_begin = begin_call ''attempting to install all packages...''"

definition installAll :: "event list \<Rightarrow> call" where
  "installAll evs = emit installAll_on evs installAll_begin"

subsection \<open>install\<close>

definition install_on_log :: "bower_log \<Rightarrow> call \<Rightarrow> call" where
  "install_on_log l s = s"

definition install_on_error :: "string \<Rightarrow> IError \<Rightarrow> call \<Rightarrow> call" where
  "install_on_error name e s =
     defer_reject (RError e)
       (logger_line LError
          [Txt ''BowerManager'', Txt ''^rfail^:'',
           Txt (''on uninstall '' @ [CHR 0x27] @ name @ [CHR 0x27] @ ''. Code: '' @ code e
                @ '', details: '' @ message e)] s)"

definition install_on_end :: "jsval \<Rightarrow> call \<Rightarrow> call" where
  "install_on_end result s =
     defer_resolve result (if continueLog s then continue_line [Txt ''^gok^:''] s else s)"

fun install_on :: "string \<Rightarrow> event \<Rightarrow> call \<Rightarrow> call" where
  "install_on name (Log l) s = install_on_log l s"
| "install_on name (Error e) s = install_on_error name e s"
| "install_on name (End r) s = install_on_end r s"

definition install_begin :: "string \<Rightarrow> call" where
  "install_begin name =
     begin_call (''attempting to install the package '' @ [CHR 0x27] @ name @ [CHR 0x27] @ ''...'')"

definition install :: "string \<Rightarrow> event list \<Rightarrow> call" where
  "install name evs = emit (install_on name) evs (install_begin name)"

subsection \<open>uninstall\<close>

text \<open>
  The \<open>log\<close> handler calls \<open>continueLog\<close> without a guard and then sets it to \<open>null\<close>: on a
  second \<open>not-installed\<close> notification the call of \<open>null\<close> throws before anything else runs.
\<close>

definition uninstall_on_log :: "string \<Rightarrow> bower_log \<Rightarrow> call \<Rightarrow> call" where
  "uninstall_on_log name l s =
     (if log_id l = ''not-installed'' then
        (if continueLog s then
           defer_resolve JNull
             ((logger_line LWarn
                 [Txt ''BowerManager'',
                  Txt ([CHR 0x27] @ name @ [CHR 0x27] @ '' is not installed. Any change done'')]
                 (continue_line [Txt ''^gok^:''] s))\<lparr>continueLog := False\<rparr>)
         else throw (TypeError ''continueLog is not a function'') s)
      else s)"

definition uninstall_on_error :: "string \<Rightarrow> IError \<Rightarrow> call \<Rightarrow> call" where
  "uninstall_on_error name e s =
     defer_reject (RError e)
       (logger_line LError
          [Txt ''BowerManager'', Txt ''^rfail^:'',
           Txt (''on uninstall '' @ [CHR 0x27] @ name @ [CHR 0x27] @ ''. Code: '' @ code e
                @ '', details: '' @ message e)] s)"

definition uninstall_on_end :: "jsval \<Rightarrow> call \<Rightarrow> call" where
  "uninstall_on_end result s =
     defer_resolve result (if continueLog s then continue_line [Txt ''^gok^:''] s else s)"

fun uninstall_on :: "string \<Rightarrow> event \<Rightarrow> call \<Rightarrow> call" where
  "uninstall_on name (Log l) s = uninstall_on_log name l s"
| "uninstall_on name (Error e) s = uninstall_on_error name e s"
| "uninstall_on name (End r) s = uninstall_on_end r s"

definition uninstall_begin :: "string \<Rightarrow> call" where
  "uninstall_begin name =
     begin_call (''attempting to uninstall the package '' @ [CHR 0x27] @ name @ [CHR 0x27] @ ''...'')"

definition uninstall :: "string \<Rightarrow> event list \<Rightarrow> call" where
  "uninstall name evs = emit (uninstall_on name) evs (uninstall_begin name)"

subsection \<open>info\<close>

definition info_on_log :: "bower_log \<Rightarrow> call \<Rightarrow> call" where
  "info_on_log l s = s"

definition info_on_error :: "string \<Rightarrow> IError \<Rightarrow> call \<Rightarrow> call" where
  "info_on_error name e s =
     (if code e = ''ENOTFOUND'' then
        defer_resolve JNull
          (continue_line
             [Txt ''^gok^:'', Txt (''but not found info for '' @ [CHR 0x27] @ name @ [CHR 0x27])] s)
      else
        defer_reject (RError e)
          (logger_line LError
             [Txt ''BowerManager'', Txt ''^rfail^:'',
              Txt (''on get info for '' @ [CHR 0x27] @ name @ [CHR 0x27] @ ''. Code: '' @ code e
                   @ '', details: '' @ message e)] s))"

definition info_on_end :: "jsval \<Rightarrow> call \<Rightarrow> call" where
  "info_on_end result s = defer_resolve result (continue_line [Txt ''^gok^:''] s)"

fun info_on :: "string \<Rightarrow> event \<Rightarrow> call \<Rightarrow> call" where
  "info_on name (Log l) s = info_on_log l s"
| "info_on name (Error e) s = info_on_error name e s"
| "info_on name (End r) s = info_on_end r s"

definition info_begin :: "string \<Rightarrow> call" where
  "info_begin name =
     begin_call (''retriving package info for '' @ [CHR 0x27] @ name @ [CHR 0x27] @ ''...'')"

definition info :: "string \<Rightarrow> event list \<Rightarrow> call" where
  "info name evs = emit (info_on name) evs (info_begin name)"

subsection \<open>search\<close>

definition search_on_log :: "bower_log \<Rightarrow> call \<Rightarrow> call" where
  "search_on_log l s = s"

definition search_on_error :: "string \<Rightarrow> IError \<Rightarrow> call \<Rightarrow> call" where
  "search_on_error query e s =
     defer_reject (RError e)
       (logger_line LError
          [Txt ''BowerManager'', Txt ''^cfail^:'',
           Txt (''on search packages. Term: '' @ query @ ''. Code: '' @ code e
                @ '', details: '' @ message e)] s)"

definition search_on_end :: "jsval \<Rightarrow> call \<Rightarrow> call" where
  "search_on_end results s = defer_resolve results (continue_line [Txt ''^gok^:''] s)"

fun search_on :: "string \<Rightarrow> event \<Rightarrow> call \<Rightarrow> call" where
  "search_on query (Log l) s = search_on_log l s"
| "search_on query (Error e) s = search_on_error query e s"
| "search_on query (End r) s = search_on_end r s"

definition search_begin :: "string \<Rightarrow> call" where
  "search_begin query =
     begin_call (''search packages for '' @ [CHR 0x27] @ query @ [CHR 0x27] @ ''...'')"

definition search :: "string \<Rightarrow> event list \<Rightarrow> call" where
  "search query evs = emit (search_on query) evs (search_begin query)"

subsection \<open>listPackages\<close>

definition listPackages_on_log :: "bower_log \<Rightarrow> call \<Rightarrow> call" where
  "listPackages_on_log e s =
     logger_line LTrace [Txt ''BowerManager'', Txt (log_id e @ '': '' @ log_message e)] s"

definition listPackages_on_error :: "IError \<Rightarrow> call \<Rightarrow> call" where
  "listPackages_on_error e s =
     defer_reject (RError e)
       (logger_line LError
          [Txt ''BowerManager'', Txt ''^rfail^:'', Txt ''on retriving packages. Code:'',
           Txt (code e), Txt '',details:'', Txt (message e)] s)"

definition listPackages_on_end :: "jsval \<Rightarrow> call \<Rightarrow> call" where
  "listPackages_on_end result s = defer_resolve result (continue_line [Txt ''^gok^:''] s)"

fun listPackages_on :: "event \<Rightarrow> call \<Rightarrow> call" where
  "listPackages_on (Log l) s = listPackages_on_log l s"
| "listPackages_on (Error e) s = listPackages_on_error e s"
| "listPackages_on (End r) s = listPackages_on_end r s"

definition listPackages_begin :: call where
  "listPackages_begin = begin_call ''retriving packages...''"

definition listPackages :: "event list \<Rightarrow> call" where
  "listPackages evs = emit listPackages_on evs listPackages_begin"

subsection \<open>The six command methods, and the life of their future\<close>

datatype command =
    InstallAll
  | Install string
  | Uninstall string
  | Info string
  | Search string
  | ListPackages

fun handler :: "command \<Rightarrow> event \<Rightarrow> call \<Rightarrow> call" where
  "handler InstallAll = installAll_on"
| "handler (Install pkg) = install_on pkg"
| "handler (Uninstall pkg) = uninstall_on pkg"
| "handler (Info pkg) = info_on pkg"
| "handler (Search query) = search_on query"
| "handler ListPackages = listPackages_on"

fun initial :: "command \<Rightarrow> call" where
  "initial InstallAll = installAll_begin"
| "initial (Install pkg) = install_begin pkg"
| "initial (Uninstall pkg) = uninstall_begin pkg"
| "initial (Info pkg) = info_begin pkg"
| "initial (Search query) = search_begin query"
| "initial ListPackages = listPackages_begin"

definition run :: "command \<Rightarrow> event list \<Rightarrow> call" where
  "run c evs = emit (handler c) evs (initial c)"

text \<open>The state of the future before any event and after each event of the command.\<close>

definition history :: "command \<Rightarrow> event list \<Rightarrow> promise_state list" where
  "history c evs = map promise (states (handler c) evs (initial c))"

text \<open>How often the state of a future changes along its history.\<close>

fun changes :: "promise_state list \<Rightarrow> nat" where
  "changes [] = 0"
| "changes [p] = 0"
| "changes (p # q # ps) = (if p = q then 0 else 1) + changes (q # ps)"

definition settles_exactly_once :: "promise_state list \<Rightarrow> bool" where
  "settles_exactly_once ps =
     (ps \<noteq> [] \<and> hd ps = Pending \<and> last ps \<noteq> Pending \<and> changes ps = 1)"

text \<open>Zero or more \<open>log\<close> events followed by exactly one of \<open>error\<close> or \<open>end\<close>.\<close>

fun is_log :: "event \<Rightarrow> bool" where
  "is_log (Log l) = True"
| "is_log _ = False"

fun terminated :: "event list \<Rightarrow> bool" where
  "terminated [] = False"
| "terminated [e] = (\<not> is_log e)"
| "terminated (e # es) = (is_log e \<and> terminated es)"

text \<open>
  What holds of an \<open>uninstall\<close> call as long as only \<open>log\<close> events have been delivered:
  either nothing has settled and \<open>continueLog\<close> is still the continuation, or a
  \<open>not-installed\<close> notification has resolved the future with \<open>null\<close>.
\<close>

definition uninstall_inv :: "call \<Rightarrow> bool" where
  "uninstall_inv s = ((promise s = Pending \<and> continueLog s) \<or> promise s = Resolved JNull)"

text \<open>
  A log line records a notification when one of its arguments is the notification itself, or
  a text in which both the id and the message of the notification occur.
\<close>

fun contains :: "string \<Rightarrow> string \<Rightarrow> bool" where
  "contains [] p = (p = [])"
| "contains (c # cs) p = (take (length p) (c # cs) = p \<or> contains cs p)"

fun arg_records :: "bower_log \<Rightarrow> logarg \<Rightarrow> bool" where
  "arg_records l (Txt t) = (contains t (log_id l) \<and> contains t (log_message l))"
| "arg_records l (LogObj l') = (l' = l)"
| "arg_records l Undefined = False"

fun entry_records :: "bower_log \<Rightarrow> log_entry \<Rightarrow> bool" where
  "entry_records l (Line lv args) = list_ex (arg_records l) args"
| "entry_records l (Continue args) = list_ex (arg_records l) args"

section \<open>The configuration file\<close>

text \<open>
  The injected \<open>fs\<close>, seen through the one path the class uses, \<open>bower.json\<close>: the text of the
  file when it exists, and the error the operating system answers a read or a write with when
  it refuses one (permissions, a directory in the way). A read of a file that does not exist
  fails with code \<open>ENOENT\<close>.
\<close>

record filesystem =
  bower_json :: "string option"
  read_fault :: "IError option"
  write_fault :: "IError option"

text \<open>\<open>fs.readFile("bower.json", {encoding: "utf8"}, callback)\<close>: the arguments of the callback.\<close>

definition readFile :: "filesystem \<Rightarrow> IError option \<times> string" where
  "readFile fs =
     (case read_fault fs of
        Some e \<Rightarrow> (Some e, [])
      | None \<Rightarrow>
          (case bower_json fs of
             None \<Rightarrow> (Some \<lparr>code = ''ENOENT'', message = ''no such file or directory''\<rparr>, [])
           | Some text \<Rightarrow> (None, text)))"

text \<open>\<open>fs.writeFile("bower.json", text, callback)\<close>: the file system after it, and the argument
  of the callback.\<close>

definition writeFile :: "filesystem \<Rightarrow> string \<Rightarrow> filesystem \<times> IError option" where
  "writeFile fs text =
     (case write_fault fs of
        Some e \<Rightarrow> (fs, Some e)
      | None \<Rightarrow> (fs\<lparr>bower_json := Some text\<rparr>, None))"

subsection \<open>getConfigFile\<close>

text \<open>
  \<open>parse\<close> is the runtime's \<open>JSON.parse\<close>: \<open>Inl\<close> is the exception it throws. In the
  \<open>catch\<close> branch the code rejects with \<open>error\<close>, the parameter of the callback, which is
  \<open>null\<close> on that path, and then reads \<open>error.message\<close>, which throws.
\<close>

definition getConfigFile_callback ::
  "(string \<Rightarrow> exn + jsval) \<Rightarrow> IError option \<Rightarrow> string \<Rightarrow> call \<Rightarrow> call" where
  "getConfigFile_callback parse error data s =
     (case error of
        None \<Rightarrow>
          (case parse data of
             Inr result \<Rightarrow> defer_resolve (JStr data) (continue_line [Txt ''^gok^:''] s)
           | Inl e \<Rightarrow>
               throw (TypeError ''Cannot read property message of null'') (defer_reject RNull s))
      | Some err \<Rightarrow>
          (if code err = ''ENOENT'' then
             continue_line [Txt ''^gok^:'', Txt ''but not config file found''] (defer_resolve JNull s)
           else
             logger_line LError
               [Txt ''BowerManager'', Txt ''^rfail^:'', Txt ''on get bower.json file:'',
                Txt (message err)]
               (defer_reject (RError err) s)))"

definition getConfigFile_begin :: call where
  "getConfigFile_begin = begin_call ''retriving config file...''"

definition getConfigFile :: "(string \<Rightarrow> exn + jsval) \<Rightarrow> filesystem \<Rightarrow> call" where
  "getConfigFile parse fs =
     (case readFile fs of
        (error, data) \<Rightarrow> getConfigFile_callback parse error data getConfigFile_begin)"

subsection \<open>setConfigFile\<close>

text \<open>
  \<open>stringify config 2\<close> is the runtime's \<open>JSON.stringify(config, null, 2)\<close>: \<open>Inl\<close> is the
  exception it throws, which the \<open>catch\<close> of the method receives. \<open>err.details\<close> and
  \<open>e.details\<close> are properties no error object of the interface has: \<open>undefined\<close>.
\<close>

definition setConfigFile_callback :: "IError option \<Rightarrow> call \<Rightarrow> call" where
  "setConfigFile_callback err s =
     (case err of
        None \<Rightarrow> defer_resolve (JBool True) (continue_line [Txt ''^gok^:''] s)
      | Some e \<Rightarrow>
          defer_reject (RError e)
            (logger_line LError
               [Txt ''BowerManager'', Txt ''^rfail^:'', Txt ''on writting bower.json file:'',
                Undefined] s))"

definition setConfigFile_begin :: call where
  "setConfigFile_begin = begin_call ''writting config file...''"

definition setConfigFile ::
  "(jsval \<Rightarrow> nat \<Rightarrow> exn + string) \<Rightarrow> jsval \<Rightarrow> filesystem \<Rightarrow> filesystem \<times> call" where
  "setConfigFile stringify config fs =
     (case (if typeof config \<noteq> ''string'' then stringify config 2
            else Inr (case config of JStr text \<Rightarrow> text | _ \<Rightarrow> [])) of
        Inl e \<Rightarrow>
          (fs, logger_line LError
                 [Txt ''BowerManager'', Txt ''^rfail^:'', Txt ''on writting bower.json file:'',
                  Undefined]
                 (defer_reject (RExn e) setConfigFile_begin))
      | Inr text \<Rightarrow>
          (case writeFile fs text of
             (fs', err) \<Rightarrow> (fs', setConfigFile_callback err setConfigFile_begin)))"

section \<open>A reference instance of the runtime's JSON functions\<close>

text \<open>
  \<open>JSON.stringify(value, null, space)\<close> and \<open>JSON.parse(text)\<close> belong to the runtime, and
  the methods above take them as parameters. The functions below are an instance of the two
  for a fragment of JSON, for where a parameter has to be a concrete function: integers
  below \<open>2^53\<close> in magnitude written without fraction or exponent, characters below
  \<open>U+0100\<close> (one \<^typ>\<open>char\<close> each), objects whose keys are distinct and are not array indices.
  On the texts and the values of the fragment they answer as ECMAScript prescribes. Outside
  it they are not the runtime's functions: \<open>JSON_parse\<close> answers a number with a fraction or
  an exponent, and a unicode escape above 00FF, with a \<open>SyntaxError\<close> and keeps the members of
  an object as the text has them, and \<open>JSON_stringify\<close> prints every integer in plain digits
  and the members in the order of the list.
\<close>

subsection \<open>Printing\<close>

text \<open>
  \<open>quote\<close> is \<open>QuoteJSONString\<close>: the quotation mark, the backslash and the control
  characters are escaped. \<open>serialize gap indent\<close> is \<open>SerializeJSONProperty\<close> with the gap
  made of \<open>space\<close> spaces: an empty gap prints on one line, any other gap puts every element
  and member on a line of its own, one gap deeper than the value that holds it.
\<close>

definition hex_char :: "nat \<Rightarrow> char" where
  "hex_char d = (if d < 10 then char_of (48 + d) else char_of (87 + d))"

definition quote_char :: "char \<Rightarrow> string" where
  "quote_char c =
     (if c = CHR 0x22 then [CHR 0x5C, CHR 0x22]
      else if c = CHR 0x5C then [CHR 0x5C, CHR 0x5C]
      else if c = CHR 0x08 then [CHR 0x5C, CHR ''b'']
      else if c = CHR 0x0C then [CHR 0x5C, CHR ''f'']
      else if c = CHR 0x0A then [CHR 0x5C, CHR ''n'']
      else if c = CHR 0x0D then [CHR 0x5C, CHR ''r'']
      else if c = CHR 0x09 then [CHR 0x5C, CHR ''t'']
      else if (of_char c :: nat) < 32 then
        [CHR 0x5C, CHR ''u'', CHR ''0'', CHR ''0'',
         hex_char (of_char c div 16), hex_char (of_char c mod 16)]
      else [c])"

definition quote :: "string \<Rightarrow> string" where
  "quote s = [CHR 0x22] @ concat (map quote_char s) @ [CHR 0x22]"

fun join :: "string \<Rightarrow> string list \<Rightarrow> string" where
  "join sep [] = []"
| "join sep [x] = x"
| "join sep (x # y # ys) = x @ sep @ join sep (y # ys)"

fun serialize :: "string \<Rightarrow> string \<Rightarrow> jsval \<Rightarrow> string" where
  "serialize gap indent JNull = ''null''"
| "serialize gap indent (JBool b) = (if b then ''true'' else ''false'')"
| "serialize gap indent (JNum i) =
     (if i < 0 then CHR ''-'' # decimal (nat (- i)) else decimal (nat i))"
| "serialize gap indent (JStr s) = quote s"
| "serialize gap indent (JArr xs) =
     (if xs = [] then ''[]''
      else if gap = [] then ''['' @ join '','' (map (serialize gap (indent @ gap)) xs) @ '']''
      else ''['' @ [CHR 0x0A] @ indent @ gap
           @ join ('','' @ [CHR 0x0A] @ indent @ gap) (map (serialize gap (indent @ gap)) xs)
           @ [CHR 0x0A] @ indent @ '']'')"
| "serialize gap indent (JObj kvs) =
     (if kvs = [] then ''{}''
      else if gap = [] then
        ''{''
        @ join '','' (map (\<lambda>kv. quote (fst kv) @ '':'' @ serialize gap (indent @ gap) (snd kv)) kvs)
        @ ''}''
      else ''{'' @ [CHR 0x0A] @ indent @ gap
           @ join ('','' @ [CHR 0x0A] @ indent @ gap)
               (map (\<lambda>kv. quote (fst kv) @ '': '' @ serialize gap (indent @ gap) (snd kv)) kvs)
           @ [CHR 0x0A] @ indent @ ''}'')"

definition JSON_stringify :: "jsval \<Rightarrow> nat \<Rightarrow> exn + string" where
  "JSON_stringify v space = Inr (serialize (replicate (min space 10) CHR '' '') [] v)"

subsection \<open>Parsing\<close>

text \<open>
  A recursive descent over the text. \<open>parse_chars\<close> reads a string after its opening
  quotation mark, \<open>parse_number\<close> an integer (a fraction or an exponent is outside the values
  of \<^typ>\<open>jsval\<close>); \<open>parse_value\<close>, \<open>parse_elements\<close> and \<open>parse_members\<close> take as fuel a
  bound on the calls they may nest, which the length of the text gives. \<open>JSON_parse\<close> accepts
  a text that is one value between white space and throws a \<open>SyntaxError\<close> on any other.
\<close>

definition is_ws :: "char \<Rightarrow> bool" where
  "is_ws c = (c = CHR 0x20 \<or> c = CHR 0x09 \<or> c = CHR 0x0A \<or> c = CHR 0x0D)"

definition skip_ws :: "string \<Rightarrow> string" where
  "skip_ws cs = dropWhile is_ws cs"

definition is_digit :: "char \<Rightarrow> bool" where
  "is_digit c = (48 \<le> (of_char c :: nat) \<and> (of_char c :: nat) \<le> 57)"

definition digits_value :: "string \<Rightarrow> nat" where
  "digits_value ds = foldl (\<lambda>acc d. 10 * acc + (of_char d - 48)) 0 ds"

definition hex_value :: "char \<Rightarrow> nat option" where
  "hex_value c =
     (let n = (of_char c :: nat) in
      if 48 \<le> n \<and> n \<le> 57 then Some (n - 48)
      else if 97 \<le> n \<and> n \<le> 102 then Some (n - 87)
      else if 65 \<le> n \<and> n \<le> 70 then Some (n - 55)
      else None)"

definition unescape :: "char \<Rightarrow> char option" where
  "unescape e =
     (if e = CHR 0x22 then Some (CHR 0x22)
      else if e = CHR 0x5C then Some (CHR 0x5C)
      else if e = CHR ''/'' then Some (CHR ''/'')
      else if e = CHR ''b'' then Some (CHR 0x08)
      else if e = CHR ''f'' then Some (CHR 0x0C)
      else if e = CHR ''n'' then Some (CHR 0x0A)
      else if e = CHR ''r'' then Some (CHR 0x0D)
      else if e = CHR ''t'' then Some (CHR 0x09)
      else None)"

definition unescape_u :: "string \<Rightarrow> char option" where
  "unescape_u hs =
     (case map hex_value hs of
        [Some a, Some b, Some c, Some d] \<Rightarrow>
          (if a = 0 \<and> b = 0 then Some (char_of (16 * c + d)) else None)
      | _ \<Rightarrow> None)"

fun parse_chars :: "string \<Rightarrow> (string \<times> string) option" where
  "parse_chars [] = None"
| "parse_chars (c # cs) =
     (if c = CHR 0x22 then Some ([], cs)
      else if c = CHR 0x5C then
        (case cs of
           [] \<Rightarrow> None
         | e # rest \<Rightarrow>
             (if e = CHR ''u'' then
                (case unescape_u (take 4 rest) of
                   None \<Rightarrow> None
                 | Some d \<Rightarrow> map_option (\<lambda>p. (d # fst p, snd p)) (parse_chars (drop 4 rest)))
              else
                (case unescape e of
                   None \<Rightarrow> None
                 | Some d \<Rightarrow> map_option (\<lambda>p. (d # fst p, snd p)) (parse_chars rest))))
      else if (of_char c :: nat) < 32 then None
      else map_option (\<lambda>p. (c # fst p, snd p)) (parse_chars cs))"

definition parse_number :: "string \<Rightarrow> (jsval \<times> string) option" where
  "parse_number cs =
     (let neg = (cs \<noteq> [] \<and> hd cs = CHR ''-'');
          body = (if neg then tl cs else cs);
          ds = takeWhile is_digit body;
          rest = dropWhile is_digit body
      in if ds = [] \<or> (length ds > 1 \<and> hd ds = CHR ''0'') then None
         else if rest \<noteq> [] \<and> (hd rest = CHR ''.'' \<or> hd rest = CHR ''e'' \<or> hd rest = CHR ''E'')
           then None
         else Some (JNum (if neg then - int (digits_value ds) else int (digits_value ds)), rest))"

fun parse_value :: "nat \<Rightarrow> string \<Rightarrow> (jsval \<times> string) option"
  and parse_elements :: "nat \<Rightarrow> string \<Rightarrow> (jsval list \<times> string) option"
  and parse_members :: "nat \<Rightarrow> string \<Rightarrow> ((string \<times> jsval) list \<times> string) option"
where
  "parse_value 0 cs = None"
| "parse_value (Suc n) cs =
     (case skip_ws cs of
        [] \<Rightarrow> None
      | c # rest \<Rightarrow>
          (if c = CHR ''{'' then
             (case skip_ws rest of
                [] \<Rightarrow> None
              | d # r \<Rightarrow>
                  if d = CHR ''}'' then Some (JObj [], r)
                  else map_option (\<lambda>p. (JObj (fst p), snd p)) (parse_members n rest))
           else if c = CHR ''['' then
             (case skip_ws rest of
                [] \<Rightarrow> None
              | d # r \<Rightarrow>
                  if d = CHR '']'' then Some (JArr [], r)
                  else map_option (\<lambda>p. (JArr (fst p), snd p)) (parse_elements n rest))
           else if c = CHR 0x22 then map_option (\<lambda>p. (JStr (fst p), snd p)) (parse_chars rest)
           else if take 4 (c # rest) = ''null'' then Some (JNull, drop 3 rest)
           else if take 4 (c # rest) = ''true'' then Some (JBool True, drop 3 rest)
           else if take 5 (c # rest) = ''false'' then Some (JBool False, drop 4 rest)
           else parse_number (c # rest)))"
| "parse_elements 0 cs = None"
| "parse_elements (Suc n) cs =
     (case parse_value n cs of
        None \<Rightarrow> None
      | Some (v, r) \<Rightarrow>
          (case skip_ws r of
             [] \<Rightarrow> None
           | d # r' \<Rightarrow>
               if d = CHR '','' then map_option (\<lambda>p. (v # fst p, snd p)) (parse_elements n r')
               else if d = CHR '']'' then Some ([v], r')
               else None))"
| "parse_members 0 cs = None"
| "parse_members (Suc n) cs =
     (case skip_ws cs of
        [] \<Rightarrow> None
      | q # r0 \<Rightarrow>
          if q \<noteq> CHR 0x22 then None
          else
            (case parse_chars r0 of
               None \<Rightarrow> None
             | Some (k, r1) \<Rightarrow>
                 (case skip_ws r1 of
                    [] \<Rightarrow> None
                  | colon # r2 \<Rightarrow>
                      if colon \<noteq> CHR '':'' then None
                      else
                        (case parse_value n r2 of
                           None \<Rightarrow> None
                         | Some (v, r3) \<Rightarrow>
                             (case skip_ws r3 of
                                [] \<Rightarrow> None
                              | d # r4 \<Rightarrow>
                                  if d = CHR '','' then
                                    map_option (\<lambda>p. ((k, v) # fst p, snd p)) (parse_members n r4)
                                  else if d = CHR ''}'' then Some ([(k, v)], r4)
                                  else None)))))"

text \<open>
  What may follow a value in a JSON text: nothing, a comma, a closing bracket or brace, or
  white space.
\<close>

definition ends_value :: "string \<Rightarrow> bool" where
  "ends_value rest =
     (case rest of
        [] \<Rightarrow> True
      | c # _ \<Rightarrow> c = CHR '','' \<or> c = CHR '']'' \<or> c = CHR ''}'' \<or> is_ws c)"

text \<open>The first character of a printed value: no white space, no closing bracket or brace,
  no comma.\<close>

definition starts_value :: "char \<Rightarrow> bool" where
  "starts_value c = (\<not> is_ws c \<and> c \<noteq> CHR '']'' \<and> c \<noteq> CHR ''}'' \<and> c \<noteq> CHR '','')"

definition JSON_parse :: "string \<Rightarrow> exn + jsval" where
  "JSON_parse text =
     (case parse_value (Suc (length text)) text of
        None \<Rightarrow> Inl (SyntaxError ''Unexpected token in JSON'')
      | Some (v, r) \<Rightarrow>
          if skip_ws r = [] then Inr v else Inl (SyntaxError ''Unexpected token in JSON''))"

text \<open>
  The example of the spec: the object \<open>{name: "app"}\<close>, and the text
  \<open>JSON.stringify\<close> prints for it with an indentation of two spaces.
\<close>

definition example_config :: jsval where
  "example_config = JObj [(''name'', JStr ''app'')]"

definition example_text :: string where
  "example_text =
     ''{'' @ [CHR 0x0A] @ ''  '' @ [CHR 0x22] @ ''name'' @ [CHR 0x22] @ '': ''
     @ [CHR 0x22] @ ''app'' @ [CHR 0x22] @ [CHR 0x0A] @ ''}''"

section \<open>The socket base service\<close>

text \<open>
  A connected socket: its identifier, and whether \<open>disconnect(true)\<close> delivers the
  \<open>disconnect\<close> event to its listeners before it returns (a transport that closes at once)
  or later (one that closes when its buffer has drained).
\<close>

record socket =
  socket_id :: string
  sync_close :: bool

text \<open>
  \<open>connections: Map<string, Socket>\<close> is an association list in insertion order;
  \<open>srv_log\<close> holds the lines logged, \<open>disconnect_calls\<close> the sockets \<open>disconnect(true)\<close>
  was called on.
\<close>

record BaseSrv =
  srv_name :: string
  connections :: "(string \<times> socket) list"
  srv_log :: "log_entry list"
  disconnect_calls :: "string list"

text \<open>\<open>Map.set\<close>, \<open>Map.delete\<close>; \<open>Map.size\<close> is the length of the list.\<close>

definition map_set ::
  "string \<Rightarrow> socket \<Rightarrow> (string \<times> socket) list \<Rightarrow> (string \<times> socket) list" where
  "map_set k v m =
     (if map_of m k = None then m @ [(k, v)]
      else map (\<lambda>kv. if fst kv = k then (k, v) else kv) m)"

definition map_delete :: "string \<Rightarrow> (string \<times> socket) list \<Rightarrow> (string \<times> socket) list" where
  "map_delete k m = filter (\<lambda>kv. fst kv \<noteq> k) m"

definition srv_line :: "level \<Rightarrow> string \<Rightarrow> BaseSrv \<Rightarrow> BaseSrv" where
  "srv_line l msg srv = srv\<lparr>srv_log := srv_log srv @ [Line l [Txt (srv_name srv), Txt msg]]\<rparr>"

definition onClientDisconnect :: "socket \<Rightarrow> BaseSrv \<Rightarrow> BaseSrv" where
  "onClientDisconnect sock srv =
     (let s1 = srv_line LInfo
                 (''Client disconnected. Now there are '' @ decimal (length (connections srv))
                  @ '' connection/s'') srv;
          s2 = s1\<lparr>connections := map_delete (socket_id sock) (connections s1)\<rparr>
      in srv_line LTrace
           (''Client disconnected id '' @ [CHR 0x27] @ socket_id sock @ [CHR 0x27]) s2)"

text \<open>
  \<open>_onClientConnect\<close>: registers the socket under its identifier and listens to its
  \<open>disconnect\<close> event; \<open>_registerEvents\<close> is abstract and \<open>_onCompleteConnectionProcess\<close>
  is empty.
\<close>

definition onClientConnect :: "socket \<Rightarrow> BaseSrv \<Rightarrow> BaseSrv" where
  "onClientConnect sock srv =
     (let s1 = srv\<lparr>connections := map_set (socket_id sock) sock (connections srv)\<rparr>;
          s2 = srv_line LInfo
                 (''New client connected. Now there are '' @ decimal (length (connections s1))
                  @ '' connection/s'') s1
      in srv_line LTrace (''Client id '' @ [CHR 0x27] @ socket_id sock @ [CHR 0x27]) s2)"

text \<open>
  \<open>connection.disconnect(true)\<close>: the call is recorded; a socket that closes at once runs the
  listener \<open>_onClientConnect\<close> registered, \<open>_onClientDisconnect\<close>, before the call returns.
\<close>

definition socket_disconnect :: "socket \<Rightarrow> BaseSrv \<Rightarrow> BaseSrv" where
  "socket_disconnect sock srv =
     (let s1 = srv\<lparr>disconnect_calls := disconnect_calls srv @ [socket_id sock]\<rparr>
      in if sync_close sock then onClientDisconnect sock s1 else s1)"

text \<open>
  \<open>for (let connection of this.connections.values())\<close>: the iterator is live, so an entry
  deleted from the map before the loop reaches it is not visited.
\<close>

fun disconnect_loop :: "(string \<times> socket) list \<Rightarrow> BaseSrv \<Rightarrow> BaseSrv" where
  "disconnect_loop [] srv = srv"
| "disconnect_loop ((k, connection) # rest) srv =
     (if map_of (connections srv) k = None then disconnect_loop rest srv
      else disconnect_loop rest
             (socket_disconnect connection
                (srv_line LTrace
                   (''Disconecting '' @ [CHR 0x27] @ socket_id connection @ [CHR 0x27]) srv)))"

definition disconnectAll :: "BaseSrv \<Rightarrow> BaseSrv" where
  "disconnectAll srv =
     (let s1 = srv_line LTrace ''Disconecting all...'' srv;
          s2 = disconnect_loop (connections s1) s1;
          s3 = srv_line LInfo (''Disconected '' @ decimal (length (connections s2))) s2
      in s3\<lparr>connections := []\<rparr>)"

text \<open>
  A service three clients have connected to, each with a socket that closes at once.
\<close>

definition closing_srv :: BaseSrv where
  "closing_srv =
     onClientConnect \<lparr>socket_id = ''c3'', sync_close = True\<rparr>
       (onClientConnect \<lparr>socket_id = ''b2'', sync_close = True\<rparr>
          (onClientConnect \<lparr>socket_id = ''a1'', sync_close = True\<rparr>
             \<lparr>srv_name = ''bower'', connections = [], srv_log = [], disconnect_calls = []\<rparr>))"

section \<open>The error codes of the REST base service\<close>

definition ERROR_CODES :: "(string \<times> nat) list" where
  "ERROR_CODES =
     [(''invalid'', 0),
      (''resourceNotFound'', 10),
      (''unknow'', 20),
      (''badRequest'', 400),
      (''notAuthorized'', 401),
      (''notFound'', 404),
      (''timeout'', 408),
      (''entityToLarge'', 413),
      (''methodNotAllowed'', 415),
      (''tooManyRequests'', 429),
      (''error'', 500),
      (''notAvailable'', 503)]"

section \<open>Properties of the reference JSON functions\<close>

subsection \<open>Characters and strings\<close>

lemma char_code: "c = d \<longleftrightarrow> (of_char c :: nat) = of_char d"
  by simp

lemma of_char_digit: "d < 10 \<Longrightarrow> (of_char (digit_char d) :: nat) = 48 + d"
  by (simp add: digit_char_def)

lemma is_digit_digit_char: "d < 10 \<Longrightarrow> is_digit (digit_char d)"
  by (simp add: is_digit_def of_char_digit)

lemma hex_value_hex_char: "d < 16 \<Longrightarrow> hex_value (hex_char d) = Some d"
  by (auto simp: hex_value_def hex_char_def Let_def)

lemma hex_value_zero: "hex_value (CHR ''0'') = Some 0"
  by (simp add: hex_value_def)

lemma parse_chars_quote_char:
  "parse_chars (quote_char c @ cs) = map_option (\<lambda>p. (c # fst p, snd p)) (parse_chars cs)"
proof -
  consider (dq) "c = CHR 0x22" | (bs) "c = CHR 0x5C" | (b) "c = CHR 0x08" | (f) "c = CHR 0x0C"
    | (n) "c = CHR 0x0A" | (r) "c = CHR 0x0D" | (t) "c = CHR 0x09"
    | (ctl) "(of_char c :: nat) < 32" "(of_char c :: nat) \<notin> {8, 9, 10, 12, 13}"
    | (plain) "(of_char c :: nat) \<ge> 32" "c \<noteq> CHR 0x22" "c \<noteq> CHR 0x5C"
    by (simp add: char_code) (meson leI)
  then show ?thesis
  proof cases
    case ctl
    then have q: "quote_char c = [CHR 0x5C, CHR ''u'', CHR ''0'', CHR ''0'',
        hex_char (of_char c div 16), hex_char (of_char c mod 16)]"
      by (auto simp: quote_char_def char_code)
    have "(of_char c :: nat) div 16 < 16" "(of_char c :: nat) mod 16 < 16"
      using ctl(1) by auto
    then have "unescape_u [CHR ''0'', CHR ''0'', hex_char (of_char c div 16),
        hex_char (of_char c mod 16)] = Some c"
      by (simp add: unescape_u_def hex_value_hex_char hex_value_zero)
    then show ?thesis by (simp add: q)
  next
    case plain
    then have q: "quote_char c = [c]"
      by (auto simp: quote_char_def char_code)
    show ?thesis using plain by (simp add: q)
  qed (simp_all add: quote_char_def unescape_def)
qed

lemma parse_chars_quoted:
  "parse_chars (concat (map quote_char s) @ CHR 0x22 # rest) = Some (s, rest)"
  by (induction s) (simp_all add: parse_chars_quote_char)

subsection \<open>Numbers\<close>

lemma decimal_Cons: "\<exists>d ds. decimal n = d # ds \<and> is_digit d \<and> (d = CHR ''0'' \<longrightarrow> n = 0 \<and> ds = [])"
proof (induction n rule: decimal.induct)
  case (1 n)
  show ?case
  proof (cases "n < 10")
    case True
    then have "decimal n = [digit_char n]" by (simp add: decimal.simps)
    moreover have "is_digit (digit_char n)" using True by (rule is_digit_digit_char)
    moreover have "digit_char n = CHR ''0'' \<longrightarrow> n = 0"
      using True by (simp add: char_code of_char_digit)
    ultimately show ?thesis by simp
  next
    case False
    with 1 obtain d ds where ih: "decimal (n div 10) = d # ds" "is_digit d"
      "d = CHR ''0'' \<longrightarrow> n div 10 = 0 \<and> ds = []"
      by blast
    from False have "n div 10 \<noteq> 0" by simp
    with ih have "d \<noteq> CHR ''0''" by blast
    moreover from False ih have "decimal n = d # (ds @ [digit_char (n mod 10)])"
      by (simp add: decimal.simps [of n])
    ultimately show ?thesis using ih(2) by simp
  qed
qed

lemma decimal_digits: "list_all is_digit (decimal n)"
proof (induction n rule: decimal.induct)
  case (1 n)
  show ?case
  proof (cases "n < 10")
    case True
    then show ?thesis by (simp add: decimal.simps is_digit_digit_char)
  next
    case False
    with 1 show ?thesis
      by (simp add: decimal.simps [of n] is_digit_digit_char)
  qed
qed

lemma digits_value_snoc:
  "digits_value (ds @ [d]) = 10 * digits_value ds + (of_char d - 48)"
  by (simp add: digits_value_def)

lemma digits_value_decimal: "digits_value (decimal n) = n"
proof (induction n rule: decimal.induct)
  case (1 n)
  show ?case
  proof (cases "n < 10")
    case True
    then show ?thesis by (simp add: decimal.simps digits_value_def of_char_digit)
  next
    case False
    with 1 show ?thesis
      by (simp add: decimal.simps [of n] digits_value_snoc of_char_digit)
  qed
qed

lemma ends_value_not_digit: "ends_value (c # r) \<Longrightarrow> \<not> is_digit c"
  by (auto simp: ends_value_def is_digit_def is_ws_def)

lemma ends_value_not_fraction:
  "ends_value (c # r) \<Longrightarrow> c \<noteq> CHR ''.'' \<and> c \<noteq> CHR ''e'' \<and> c \<noteq> CHR ''E''"
  by (auto simp: ends_value_def is_ws_def)

lemma takeWhile_digits:
  "ends_value rest \<Longrightarrow> takeWhile is_digit (decimal n @ rest) = decimal n"
  using decimal_digits [of n]
  by (cases rest) (auto simp: list_all_iff takeWhile_append2 dest: ends_value_not_digit)

lemma dropWhile_digits:
  "ends_value rest \<Longrightarrow> dropWhile is_digit (decimal n @ rest) = rest"
  using decimal_digits [of n]
  by (cases rest) (auto simp: list_all_iff dropWhile_append2 dest: ends_value_not_digit)

lemma parse_number_decimal:
  assumes "ends_value rest"
  shows "parse_number (decimal n @ rest) = Some (JNum (int n), rest)"
proof -
  obtain d ds where d: "decimal n = d # ds" "is_digit d" "d = CHR ''0'' \<longrightarrow> n = 0 \<and> ds = []"
    using decimal_Cons by blast
  from d(2) have not_minus: "d \<noteq> CHR ''-''" by (auto simp: is_digit_def)
  have tw: "takeWhile is_digit (d # ds @ rest) = d # ds"
    and dw: "dropWhile is_digit (d # ds @ rest) = rest"
    using takeWhile_digits [OF assms, of n] dropWhile_digits [OF assms, of n] d(1) by simp_all
  have lead: "\<not> (length (d # ds) > 1 \<and> d = CHR ''0'')" using d(3) by auto
  have frac: "\<not> (rest \<noteq> [] \<and> (hd rest = CHR ''.'' \<or> hd rest = CHR ''e'' \<or> hd rest = CHR ''E''))"
    using assms ends_value_not_fraction by (cases rest) auto
  have val: "digits_value (d # ds) = n" using digits_value_decimal [of n] d(1) by simp
  show ?thesis
    unfolding parse_number_def d(1)
    using not_minus lead frac val
    by (simp add: Let_def tw dw del: takeWhile.simps dropWhile.simps)
qed

lemma parse_number_negative:
  assumes "ends_value rest"
  shows "parse_number (CHR ''-'' # decimal n @ rest) = Some (JNum (- int n), rest)"
proof -
  obtain d ds where d: "decimal n = d # ds" "is_digit d" "d = CHR ''0'' \<longrightarrow> n = 0 \<and> ds = []"
    using decimal_Cons by blast
  have tw: "takeWhile is_digit (d # ds @ rest) = d # ds"
    and dw: "dropWhile is_digit (d # ds @ rest) = rest"
    using takeWhile_digits [OF assms, of n] dropWhile_digits [OF assms, of n] d(1) by simp_all
  have lead: "\<not> (length (d # ds) > 1 \<and> d = CHR ''0'')" using d(3) by auto
  have frac: "\<not> (rest \<noteq> [] \<and> (hd rest = CHR ''.'' \<or> hd rest = CHR ''e'' \<or> hd rest = CHR ''E''))"
    using assms ends_value_not_fraction by (cases rest) auto
  have val: "digits_value (d # ds) = n" using digits_value_decimal [of n] d(1) by simp
  show ?thesis
    unfolding parse_number_def d(1)
    using lead frac val
    by (simp add: Let_def tw dw del: takeWhile.simps dropWhile.simps)
qed

subsection \<open>White space\<close>

lemma skip_ws_prefix: "list_all is_ws w \<Longrightarrow> skip_ws (w @ cs) = skip_ws cs"
  by (induction w) (simp_all add: skip_ws_def)

lemma skip_ws_Cons: "\<not> is_ws c \<Longrightarrow> skip_ws (c # cs) = c # cs"
  by (simp add: skip_ws_def)

lemma parse_value_prefix:
  "list_all is_ws w \<Longrightarrow> parse_value n (w @ cs) = parse_value n cs"
  by (cases n) (simp_all add: skip_ws_prefix)

lemma parse_members_prefix:
  "list_all is_ws w \<Longrightarrow> parse_members n (w @ cs) = parse_members n cs"
  by (cases n) (simp_all add: skip_ws_prefix)

lemma parse_elements_prefix:
  "list_all is_ws w \<Longrightarrow> parse_elements n (w @ cs) = parse_elements n cs"
  by (cases n) (simp_all add: parse_value_prefix)

lemma ends_value_simps [simp]:
  "ends_value []" "ends_value (CHR '','' # r)" "ends_value (CHR '']'' # r)"
  "ends_value (CHR ''}'' # r)" "ends_value (CHR 0x0A # r)"
  by (simp_all add: ends_value_def is_ws_def)

lemma ends_value_ws: "list_all is_ws w \<Longrightarrow> ends_value r \<Longrightarrow> ends_value (w @ r)"
  by (cases w) (simp_all add: ends_value_def)

lemma serialize_head: "\<exists>c cs. serialize gap indent v = c # cs \<and> starts_value c"
proof (cases v)
  case (JNum i)
  obtain d ds where d: "decimal (nat \<bar>i\<bar>) = d # ds" "is_digit d"
    using decimal_Cons by blast
  then have "starts_value d" by (auto simp: starts_value_def is_digit_def is_ws_def)
  moreover have "starts_value (CHR ''-'')" by (simp add: starts_value_def is_ws_def)
  moreover have "nat (- i) = nat \<bar>i\<bar>" if "i < 0" using that by simp
  moreover have "nat i = nat \<bar>i\<bar>" if "\<not> i < 0" using that by simp
  ultimately show ?thesis using JNum d(1) by auto
qed (auto simp: starts_value_def is_ws_def quote_def)

lemma not_ws [simp]:
  "\<not> is_ws (CHR '','')" "\<not> is_ws (CHR '']'')" "\<not> is_ws (CHR ''}'')" "\<not> is_ws (CHR '':'')"
  "\<not> is_ws (CHR 0x22)" "\<not> is_ws (CHR ''['')" "\<not> is_ws (CHR ''{'')"
  by (simp_all add: is_ws_def)

lemma skip_ws_then: "list_all is_ws w \<Longrightarrow> \<not> is_ws c \<Longrightarrow> skip_ws (w @ c # r) = c # r"
  by (simp add: skip_ws_prefix skip_ws_Cons)

lemma join_head:
  assumes "xs \<noteq> []" and "\<And>x. x \<in> set xs \<Longrightarrow> \<exists>c cs. x = c # cs \<and> P c"
  shows "\<exists>c cs. join sep xs = c # cs \<and> P c"
proof (cases xs)
  case Nil
  with assms(1) show ?thesis by simp
next
  case (Cons x ys)
  from assms(2) [of x] Cons obtain c cs where x: "x = c # cs" "P c" by auto
  with Cons show ?thesis by (cases ys) auto
qed

text \<open>From here on the equations of the parser are unfolded by hand.\<close>

declare parse_value.simps [simp del] parse_elements.simps [simp del]
  parse_members.simps [simp del]

lemma parse_elements_join:
  assumes elems: "\<And>x m r. x \<in> set xs \<Longrightarrow> size x \<le> m \<Longrightarrow> ends_value r \<Longrightarrow>
            parse_value (Suc m) (ser x @ r) = Some (x, r)"
    and "xs \<noteq> []" and "list_all is_ws w1" and "list_all is_ws w2"
    and "size_list size xs < n"
  shows "parse_elements n (join (CHR '','' # w1) (map ser xs) @ w2 @ CHR '']'' # rest)
         = Some (xs, rest)"
  using assms
proof (induction xs arbitrary: n)
  case Nil
  then show ?case by simp
next
  case (Cons x ys)
  from Cons.prems(5) obtain m where n: "n = Suc (Suc m)" and m: "size x \<le> m"
    and m': "size_list size ys < Suc m"
    by (cases n; cases "n - 1") auto
  have first: "parse_value (Suc m) (ser x @ r) = Some (x, r)" if "ends_value r" for r
    using m that by (intro Cons.prems(1)) simp_all
  show ?case
  proof (cases ys)
    case Nil
    have ev: "ends_value (w2 @ CHR '']'' # rest)"
      using Cons.prems(4) by (simp add: ends_value_ws)
    have sk: "skip_ws (w2 @ CHR '']'' # rest) = CHR '']'' # rest"
      using Cons.prems(4) by (simp add: skip_ws_then)
    show ?thesis
      by (simp add: n Nil parse_elements.simps first [OF ev] sk)
  next
    case (Cons y zs)
    let ?tail = "join (CHR '','' # w1) (map ser ys) @ w2 @ CHR '']'' # rest"
    have ev: "ends_value (CHR '','' # w1 @ ?tail)" by simp
    have sk: "skip_ws (CHR '','' # w1 @ ?tail) = CHR '','' # w1 @ ?tail"
      by (simp add: skip_ws_Cons)
    have rest_elems: "\<And>x m r. x \<in> set ys \<Longrightarrow> size x \<le> m \<Longrightarrow> ends_value r \<Longrightarrow>
            parse_value (Suc m) (ser x @ r) = Some (x, r)"
      by (intro Cons.prems(1)) simp_all
    have ne: "ys \<noteq> []" using Cons by simp
    have ih: "parse_elements (Suc m) ?tail = Some (ys, rest)"
      using rest_elems ne Cons.prems(3) Cons.prems(4) m' by (rule Cons.IH)
    have whole: "join (CHR '','' # w1) (map ser (x # ys)) @ w2 @ CHR '']'' # rest
        = ser x @ CHR '','' # w1 @ ?tail"
      by (simp add: Cons)
    show ?thesis
      unfolding whole n
      by (simp add: parse_elements.simps(2) [of "Suc m"] first [OF ev] sk
            parse_elements_prefix [OF Cons.prems(3)] ih)
  qed
qed

lemma parse_members_join:
  assumes vals: "\<And>k v m r. (k, v) \<in> set kvs \<Longrightarrow> size v \<le> m \<Longrightarrow> ends_value r \<Longrightarrow>
            parse_value (Suc m) (ser v @ r) = Some (v, r)"
    and "kvs \<noteq> []" and "list_all is_ws w0" and "list_all is_ws w1" and "list_all is_ws w2"
    and "size_list (size_prod (\<lambda>_. 0) size) kvs < n"
  shows "parse_members n
           (join (CHR '','' # w1) (map (\<lambda>kv. quote (fst kv) @ CHR '':'' # w0 @ ser (snd kv)) kvs)
            @ w2 @ CHR ''}'' # rest)
         = Some (kvs, rest)"
  using assms
proof (induction kvs arbitrary: n)
  case Nil
  then show ?case by simp
next
  case (Cons kv ys)
  obtain k v where kv: "kv = (k, v)" by (cases kv)
  from Cons.prems(6) kv obtain m where n: "n = Suc (Suc m)" and m: "size v \<le> m"
    and m': "size_list (size_prod (\<lambda>_. 0) size) ys < Suc m"
    by (cases n; cases "n - 1") auto
  have first: "parse_value (Suc m) (w0 @ ser v @ r) = Some (v, r)" if "ends_value r" for r
  proof -
    have "parse_value (Suc m) (ser v @ r) = Some (v, r)"
      using m that by (intro Cons.prems(1) [of k]) (simp_all add: kv)
    then show ?thesis by (simp add: parse_value_prefix [OF Cons.prems(3)])
  qed
  have key: "parse_chars (concat (map quote_char k) @ CHR 0x22 # r) = Some (k, r)" for r
    by (rule parse_chars_quoted)
  have colon: "skip_ws (CHR '':'' # r) = CHR '':'' # r" for r
    by (simp add: skip_ws_Cons)
  have dq: "skip_ws (CHR 0x22 # r) = CHR 0x22 # r" for r
    by (simp add: skip_ws_Cons)
  show ?case
  proof (cases ys)
    case Nil
    have ev: "ends_value (w2 @ CHR ''}'' # rest)"
      using Cons.prems(5) by (simp add: ends_value_ws)
    have sk: "skip_ws (w2 @ CHR ''}'' # rest) = CHR ''}'' # rest"
      using Cons.prems(5) by (simp add: skip_ws_then)
    show ?thesis
      by (simp add: n Nil kv quote_def parse_members.simps dq key colon first [OF ev] sk)
  next
    case (Cons y zs)
    let ?f = "\<lambda>kv. quote (fst kv) @ CHR '':'' # w0 @ ser (snd kv)"
    let ?tail = "join (CHR '','' # w1) (map ?f ys) @ w2 @ CHR ''}'' # rest"
    have ev: "ends_value (CHR '','' # w1 @ ?tail)" by simp
    have sk: "skip_ws (CHR '','' # w1 @ ?tail) = CHR '','' # w1 @ ?tail"
      by (simp add: skip_ws_Cons)
    have rest_vals: "\<And>k v m r. (k, v) \<in> set ys \<Longrightarrow> size v \<le> m \<Longrightarrow> ends_value r \<Longrightarrow>
            parse_value (Suc m) (ser v @ r) = Some (v, r)"
      using Cons.prems(1) by (meson list.set_intros(2))
    have ne: "ys \<noteq> []" using Cons by simp
    have ih: "parse_members (Suc m) ?tail = Some (ys, rest)"
      using rest_vals ne Cons.prems(3) Cons.prems(4) Cons.prems(5) m' by (rule Cons.IH)
    have whole: "join (CHR '','' # w1) (map ?f (kv # ys)) @ w2 @ CHR ''}'' # rest
        = CHR 0x22 # concat (map quote_char k) @ CHR 0x22 # CHR '':'' # w0 @ ser v
          @ CHR '','' # w1 @ ?tail"
      by (simp add: Cons kv quote_def)
    show ?thesis
      unfolding whole n
      by (simp add: parse_members.simps(2) [of "Suc m"] dq key colon first [OF ev] sk
            parse_members_prefix [OF Cons.prems(4)] ih kv)
  qed
qed

subsection \<open>Values\<close>

lemma digit_plain:
  "is_digit d \<Longrightarrow>
     \<not> is_ws d \<and> d \<noteq> CHR ''{'' \<and> d \<noteq> CHR ''['' \<and> d \<noteq> CHR 0x22
     \<and> d \<noteq> CHR ''n'' \<and> d \<noteq> CHR ''t'' \<and> d \<noteq> CHR ''f''"
  by (auto simp: is_digit_def is_ws_def)

lemma parse_value_number:
  assumes "ends_value rest"
  shows "parse_value (Suc n) (serialize gap indent (JNum i) @ rest) = Some (JNum i, rest)"
proof (cases "i < 0")
  case True
  have "parse_value (Suc n) (CHR ''-'' # decimal (nat (- i)) @ rest)
      = parse_number (CHR ''-'' # decimal (nat (- i)) @ rest)"
    by (simp add: parse_value.simps skip_ws_Cons is_ws_def)
  with True show ?thesis
    by (simp add: parse_number_negative [OF assms])
next
  case False
  obtain d ds where d: "decimal (nat i) = d # ds" "is_digit d"
    using decimal_Cons by blast
  have "parse_value (Suc n) (d # ds @ rest) = parse_number (d # ds @ rest)"
    using digit_plain [OF d(2)] by (simp add: parse_value.simps skip_ws_Cons)
  then have "parse_value (Suc n) (decimal (nat i) @ rest) = parse_number (decimal (nat i) @ rest)"
    by (simp add: d(1))
  with False show ?thesis
    by (simp add: parse_number_decimal [OF assms])
qed

lemma parse_value_atoms:
  "parse_value (Suc n) (serialize gap indent JNull @ rest) = Some (JNull, rest)"
  "parse_value (Suc n) (serialize gap indent (JBool b) @ rest) = Some (JBool b, rest)"
  "parse_value (Suc n) (serialize gap indent (JStr s) @ rest) = Some (JStr s, rest)"
  by (simp_all add: parse_value.simps skip_ws_Cons is_ws_def quote_def parse_chars_quoted)

text \<open>The white space before the first and before each further item, and before the closing
  bracket.\<close>

lemma serialize_JArr:
  assumes "xs \<noteq> []" and that: "list_all is_ws gap" "list_all is_ws indent"
  shows "\<exists>wa wb. list_all is_ws wa \<and> list_all is_ws wb
           \<and> serialize gap indent (JArr xs)
               = CHR ''['' # wa @ join (CHR '','' # wa) (map (serialize gap (indent @ gap)) xs)
                 @ wb @ [CHR '']'']"
proof (cases "gap = []")
  case True
  with assms(1) have "serialize gap indent (JArr xs)
      = CHR ''['' # [] @ join (CHR '','' # []) (map (serialize gap (indent @ gap)) xs) @ [] @ [CHR '']'']"
    by simp
  moreover have "list_all is_ws ([] :: string)" by simp
  ultimately show ?thesis by blast
next
  case False
  let ?wa = "CHR 0x0A # indent @ gap" and ?wb = "CHR 0x0A # indent"
  from False assms(1) have "serialize gap indent (JArr xs)
      = CHR ''['' # ?wa @ join (CHR '','' # ?wa) (map (serialize gap (indent @ gap)) xs)
        @ ?wb @ [CHR '']'']"
    by simp
  moreover have "list_all is_ws ?wa" "list_all is_ws ?wb"
    using that by (simp_all add: is_ws_def)
  ultimately show ?thesis by blast
qed

lemma serialize_JObj:
  assumes "kvs \<noteq> []" and that: "list_all is_ws gap" "list_all is_ws indent"
  shows "\<exists>w0 wa wb. list_all is_ws w0 \<and> list_all is_ws wa \<and> list_all is_ws wb
           \<and> serialize gap indent (JObj kvs)
               = CHR ''{'' # wa
                 @ join (CHR '','' # wa)
                     (map (\<lambda>kv. quote (fst kv) @ CHR '':'' # w0
                                 @ serialize gap (indent @ gap) (snd kv)) kvs)
                 @ wb @ [CHR ''}'']"
proof (cases "gap = []")
  case True
  with assms(1) have "serialize gap indent (JObj kvs)
      = CHR ''{'' # [] @ join (CHR '','' # [])
          (map (\<lambda>kv. quote (fst kv) @ CHR '':'' # []
                      @ serialize gap (indent @ gap) (snd kv)) kvs) @ [] @ [CHR ''}'']"
    by simp
  moreover have "list_all is_ws ([] :: string)" by simp
  ultimately show ?thesis by blast
next
  case False
  let ?wa = "CHR 0x0A # indent @ gap" and ?wb = "CHR 0x0A # indent" and ?w0 = "[CHR 0x20]"
  from False assms(1) have "serialize gap indent (JObj kvs)
      = CHR ''{'' # ?wa @ join (CHR '','' # ?wa)
          (map (\<lambda>kv. quote (fst kv) @ CHR '':'' # ?w0
                      @ serialize gap (indent @ gap) (snd kv)) kvs)
        @ ?wb @ [CHR ''}'']"
    by simp
  moreover have "list_all is_ws ?wa" "list_all is_ws ?wb" "list_all is_ws ?w0"
    using that by (simp_all add: is_ws_def)
  ultimately show ?thesis by blast
qed

lemma starts_value_not_close:
  "starts_value c \<Longrightarrow> \<not> is_ws c \<and> c \<noteq> CHR '']'' \<and> c \<noteq> CHR ''}''"
  by (simp add: starts_value_def)

lemma parse_value_serialize:
  assumes gap: "list_all is_ws gap"
  shows "list_all is_ws indent \<Longrightarrow> size v \<le> n \<Longrightarrow> ends_value rest \<Longrightarrow>
           parse_value (Suc n) (serialize gap indent v @ rest) = Some (v, rest)"
proof (induction v arbitrary: n indent rest)
  case JNull
  show ?case by (rule parse_value_atoms)
next
  case (JBool b)
  show ?case by (rule parse_value_atoms)
next
  case (JNum i)
  then show ?case by (intro parse_value_number)
next
  case (JStr s)
  show ?case by (rule parse_value_atoms)
next
  case (JArr xs)
  show ?case
  proof (cases "xs = []")
    case True
    then show ?thesis
      by (simp add: parse_value.simps skip_ws_Cons)
  next
    case False
    let ?ser = "serialize gap (indent @ gap)"
    from serialize_JArr [OF False gap JArr.prems(1)]
    obtain wa wb where wa: "list_all is_ws wa" and wb: "list_all is_ws wb"
      and form: "serialize gap indent (JArr xs)
          = CHR ''['' # wa @ join (CHR '','' # wa) (map ?ser xs) @ wb @ [CHR '']'']"
      by blast
    let ?items = "join (CHR '','' # wa) (map ?ser xs)"
    have "\<exists>c cs. ?items = c # cs \<and> starts_value c"
    proof (rule join_head)
      show "map ?ser xs \<noteq> []" using False by simp
    next
      fix x assume "x \<in> set (map ?ser xs)"
      then obtain y where "x = ?ser y" by auto
      then show "\<exists>c cs. x = c # cs \<and> starts_value c"
        using serialize_head [of gap "indent @ gap" y] by simp
    qed
    then obtain c cs where head: "?items = c # cs" "starts_value c" by blast
    have ind: "list_all is_ws (indent @ gap)"
      using gap JArr.prems(1) by simp
    have elems: "parse_value (Suc m) (?ser x @ r) = Some (x, r)"
      if "x \<in> set xs" "size x \<le> m" "ends_value r" for x m r
      using that ind by (intro JArr.IH)
    have fuel: "size_list size xs < n"
      using JArr.prems(2) by simp
    have items: "parse_elements n (?items @ wb @ CHR '']'' # rest) = Some (xs, rest)"
      using elems False wa wb fuel by (rule parse_elements_join)
    have first: "skip_ws (wa @ ?items @ wb @ CHR '']'' # rest) = c # cs @ wb @ CHR '']'' # rest"
      using wa head starts_value_not_close [OF head(2)]
      by (simp add: skip_ws_prefix skip_ws_Cons)
    have "parse_value (Suc n) (CHR ''['' # wa @ ?items @ wb @ CHR '']'' # rest)
        = Some (JArr xs, rest)"
      using starts_value_not_close [OF head(2)]
      by (simp add: parse_value.simps(2) skip_ws_Cons first
            parse_elements_prefix [OF wa] items)
    then show ?thesis unfolding form by simp
  qed
next
  case (JObj kvs)
  show ?case
  proof (cases "kvs = []")
    case True
    then show ?thesis
      by (simp add: parse_value.simps skip_ws_Cons)
  next
    case False
    let ?ser = "serialize gap (indent @ gap)"
    from serialize_JObj [OF False gap JObj.prems(1)]
    obtain w0 wa wb where w0: "list_all is_ws w0" and wa: "list_all is_ws wa"
      and wb: "list_all is_ws wb"
      and form: "serialize gap indent (JObj kvs)
          = CHR ''{'' # wa
            @ join (CHR '','' # wa) (map (\<lambda>kv. quote (fst kv) @ CHR '':'' # w0 @ ?ser (snd kv)) kvs)
            @ wb @ [CHR ''}'']"
      by blast
    let ?items = "join (CHR '','' # wa)
        (map (\<lambda>kv. quote (fst kv) @ CHR '':'' # w0 @ ?ser (snd kv)) kvs)"
    have "\<exists>c cs. ?items = c # cs \<and> starts_value c"
    proof (rule join_head)
      show "map (\<lambda>kv. quote (fst kv) @ CHR '':'' # w0 @ ?ser (snd kv)) kvs \<noteq> []"
        using False by simp
    next
      fix x assume "x \<in> set (map (\<lambda>kv. quote (fst kv) @ CHR '':'' # w0 @ ?ser (snd kv)) kvs)"
      then obtain kv where "x = quote (fst kv) @ CHR '':'' # w0 @ ?ser (snd kv)" by auto
      then have "x = CHR 0x22 # (concat (map quote_char (fst kv)) @ [CHR 0x22])
          @ CHR '':'' # w0 @ ?ser (snd kv)"
        by (simp add: quote_def)
      moreover have "starts_value (CHR 0x22)" by (simp add: starts_value_def)
      ultimately show "\<exists>c cs. x = c # cs \<and> starts_value c" by blast
    qed
    then obtain c cs where head: "?items = c # cs" "starts_value c" by blast
    have ind: "list_all is_ws (indent @ gap)"
      using gap JObj.prems(1) by simp
    have vals: "parse_value (Suc m) (?ser v @ r) = Some (v, r)"
      if "(k, v) \<in> set kvs" "size v \<le> m" "ends_value r" for k v m r
      using that ind by (intro JObj.IH [of "(k, v)"]) simp_all
    have fuel: "size_list (size_prod (\<lambda>_. 0) size) kvs < n"
      using JObj.prems(2) by simp
    have items: "parse_members n (?items @ wb @ CHR ''}'' # rest) = Some (kvs, rest)"
      using vals False w0 wa wb fuel by (rule parse_members_join)
    have first: "skip_ws (wa @ ?items @ wb @ CHR ''}'' # rest) = c # cs @ wb @ CHR ''}'' # rest"
      using wa head starts_value_not_close [OF head(2)]
      by (simp add: skip_ws_prefix skip_ws_Cons)
    have "parse_value (Suc n) (CHR ''{'' # wa @ ?items @ wb @ CHR ''}'' # rest)
        = Some (JObj kvs, rest)"
      using starts_value_not_close [OF head(2)]
      by (simp add: parse_value.simps(2) skip_ws_Cons first
            parse_members_prefix [OF wa] items)
    then show ?thesis unfolding form by simp
  qed
qed

subsection \<open>Parsing what was printed\<close>

lemma size_list_join:
  assumes "\<And>x. x \<in> set xs \<Longrightarrow> f x \<le> length (ser x)" and "sep \<noteq> []" and "xs \<noteq> []"
  shows "size_list f xs \<le> length (join sep (map ser xs)) + 1"
  using assms
proof (induction xs)
  case Nil
  then show ?case by simp
next
  case (Cons x ys)
  show ?case
  proof (cases ys)
    case Nil
    with Cons.prems(1) [of x] show ?thesis by simp
  next
    case (Cons y zs)
    then have "size_list f ys \<le> length (join sep (map ser ys)) + 1"
      using Cons.IH Cons.prems by simp
    moreover have "f x \<le> length (ser x)" using Cons.prems(1) by simp
    moreover have "length sep \<ge> 1" using Cons.prems(2) by (cases sep) simp_all
    ultimately show ?thesis using Cons by simp
  qed
qed

lemma size_le_length_serialize:
  assumes gap: "list_all is_ws gap"
  shows "list_all is_ws indent \<Longrightarrow> size v \<le> length (serialize gap indent v)"
proof (induction v arbitrary: indent)
  case (JArr xs)
  show ?case
  proof (cases "xs = []")
    case True
    then show ?thesis by simp
  next
    case False
    let ?ser = "serialize gap (indent @ gap)"
    from serialize_JArr [OF False gap JArr.prems(1)]
    obtain wa wb where form: "serialize gap indent (JArr xs)
          = CHR ''['' # wa @ join (CHR '','' # wa) (map ?ser xs) @ wb @ [CHR '']'']"
      by blast
    have ind: "list_all is_ws (indent @ gap)" using gap JArr.prems by simp
    have "size_list size xs \<le> length (join (CHR '','' # wa) (map ?ser xs)) + 1"
      using False ind by (intro size_list_join) (simp_all add: JArr.IH)
    then show ?thesis unfolding form by simp
  qed
next
  case (JObj kvs)
  show ?case
  proof (cases "kvs = []")
    case True
    then show ?thesis by simp
  next
    case False
    let ?ser = "serialize gap (indent @ gap)"
    from serialize_JObj [OF False gap JObj.prems(1)]
    obtain w0 wa wb where form: "serialize gap indent (JObj kvs)
          = CHR ''{'' # wa
            @ join (CHR '','' # wa) (map (\<lambda>kv. quote (fst kv) @ CHR '':'' # w0 @ ?ser (snd kv)) kvs)
            @ wb @ [CHR ''}'']"
      by blast
    have ind: "list_all is_ws (indent @ gap)" using gap JObj.prems by simp
    have each: "size_prod (\<lambda>_. 0) size kv
        \<le> length (quote (fst kv) @ CHR '':'' # w0 @ ?ser (snd kv))" if "kv \<in> set kvs" for kv
    proof -
      obtain k v where kv: "kv = (k, v)" by (cases kv)
      with that have "size v \<le> length (?ser v)"
        using ind by (intro JObj.IH [of kv]) simp_all
      then show ?thesis by (simp add: kv quote_def)
    qed
    have "size_list (size_prod (\<lambda>_. 0) size) kvs
        \<le> length (join (CHR '','' # wa)
              (map (\<lambda>kv. quote (fst kv) @ CHR '':'' # w0 @ ?ser (snd kv)) kvs)) + 1"
      using each False by (intro size_list_join) simp_all
    then show ?thesis unfolding form by simp
  qed
qed simp_all

lemma JSON_parse_serialize:
  assumes "list_all is_ws gap"
  shows "JSON_parse (serialize gap [] v) = Inr v"
proof -
  let ?text = "serialize gap [] v"
  have "size v \<le> length ?text"
    using assms by (intro size_le_length_serialize) simp_all
  then have "parse_value (Suc (length ?text)) (?text @ []) = Some (v, [])"
    using assms by (intro parse_value_serialize) simp_all
  then show ?thesis by (simp add: JSON_parse_def skip_ws_def)
qed

lemma JSON_parse_stringify:
  "\<exists>printed. JSON_stringify v space = Inr printed \<and> JSON_parse printed = Inr v"
proof -
  have "list_all is_ws (replicate (min space 10) CHR '' '')"
    by (simp add: list_all_iff is_ws_def)
  then show ?thesis
    by (simp add: JSON_stringify_def JSON_parse_serialize)
qed

declare parse_value.simps [simp] parse_elements.simps [simp] parse_members.simps [simp]

section \<open>Properties of the command methods\<close>

subsection \<open>How the handlers move the future\<close>

lemma promise_logger_line [simp]: "promise (logger_line l args s) = promise s"
  by (simp add: logger_line_def)

lemma promise_continue_line [simp]: "promise (continue_line args s) = promise s"
  by (simp add: continue_line_def)

lemma promise_throw [simp]: "promise (throw x s) = promise s"
  by (simp add: throw_def)

lemma promise_defer_resolve:
  "promise (defer_resolve v s) = (if promise s = Pending then Resolved v else promise s)"
  by (simp add: defer_resolve_def split: promise_state.splits)

lemma promise_defer_reject:
  "promise (defer_reject r s) = (if promise s = Pending then Rejected r else promise s)"
  by (simp add: defer_reject_def split: promise_state.splits)

lemmas handler_defs =
  installAll_on_log_def installAll_on_error_def installAll_on_end_def
  install_on_log_def install_on_error_def install_on_end_def
  uninstall_on_log_def uninstall_on_error_def uninstall_on_end_def
  info_on_log_def info_on_error_def info_on_end_def
  search_on_log_def search_on_error_def search_on_end_def
  listPackages_on_log_def listPackages_on_error_def listPackages_on_end_def

lemma handler_keeps_settled:
  "promise s \<noteq> Pending \<Longrightarrow> promise (handler c e s) = promise s"
  by (cases c; cases e)
     (simp_all add: handler_defs promise_defer_resolve promise_defer_reject Let_def
        split: option.splits)

lemma handler_terminal_settles:
  "\<not> is_log e \<Longrightarrow> promise (handler c e s) \<noteq> Pending"
  by (cases c; cases e)
     (simp_all add: handler_defs promise_defer_resolve promise_defer_reject)

lemma states_nonempty [simp]: "states h evs s \<noteq> []"
  by (cases evs) simp_all

lemma hd_states [simp]: "hd (states h evs s) = s"
  by (cases evs) simp_all

lemma last_states: "last (states h evs s) = emit h evs s"
  by (induction evs arbitrary: s) simp_all

lemma changes_Cons:
  "ps \<noteq> [] \<Longrightarrow> changes (p # ps) = (if p = hd ps then 0 else 1) + changes ps"
  by (cases ps) simp_all

lemma settled_no_change:
  "promise s \<noteq> Pending \<Longrightarrow>
     changes (map promise (states (handler c) evs s)) = 0
     \<and> promise (emit (handler c) evs s) = promise s"
proof (induction evs arbitrary: s)
  case Nil
  show ?case by simp
next
  case (Cons e es)
  have keep: "promise (handler c e s) = promise s"
    using Cons.prems by (rule handler_keeps_settled)
  with Cons.prems have "promise (handler c e s) \<noteq> Pending" by simp
  from Cons.IH [OF this] keep show ?case
    by (simp add: changes_Cons hd_map)
qed

lemma pending_settles_once:
  "promise s = Pending \<Longrightarrow> terminated evs \<Longrightarrow>
     changes (map promise (states (handler c) evs s)) = 1
     \<and> promise (emit (handler c) evs s) \<noteq> Pending"
proof (induction evs arbitrary: s rule: terminated.induct)
  case 1
  then show ?case by simp
next
  case (2 e)
  then have "promise (handler c e s) \<noteq> Pending"
    by (simp add: handler_terminal_settles)
  with 2 show ?case by simp
next
  case (3 e e' es)
  then have tm: "terminated (e' # es)" by simp
  show ?case
  proof (cases "promise (handler c e s) = Pending")
    case True
    from "3.IH" [OF True tm] True "3.prems"(1) show ?thesis
      by (simp add: changes_Cons hd_map)
  next
    case False
    from settled_no_change [OF False, of c "e' # es"] False "3.prems"(1) show ?thesis
      by (simp add: changes_Cons hd_map)
  qed
qed

lemma initial_pending [simp]: "promise (initial c) = Pending"
  by (cases c)
     (simp_all add: installAll_begin_def install_begin_def uninstall_begin_def info_begin_def
        search_begin_def listPackages_begin_def begin_call_def)

lemma command_settles_exactly_once:
  assumes "terminated evs"
  shows "settles_exactly_once (history c evs) \<and> last (history c evs) = promise (run c evs)"
  using pending_settles_once [OF initial_pending assms, of c]
  by (simp add: settles_exactly_once_def history_def run_def last_map last_states hd_map)

lemma emit_append: "emit h (xs @ ys) s = emit h ys (emit h xs s)"
  by (induction xs arbitrary: s) simp_all

lemma run_methods:
  "run InstallAll evs = installAll evs"
  "run (Install pkg) evs = install pkg evs"
  "run (Uninstall pkg) evs = uninstall pkg evs"
  "run (Info pkg) evs = info pkg evs"
  "run (Search query) evs = search query evs"
  "run ListPackages evs = listPackages evs"
  by (simp_all add: run_def installAll_def install_def uninstall_def info_def search_def
        listPackages_def)

lemma uninstall_inv_log:
  "uninstall_inv s \<Longrightarrow> uninstall_inv (uninstall_on pkg (Log l) s)"
  by (auto simp: uninstall_inv_def uninstall_on_log_def promise_defer_resolve)

lemma uninstall_inv_logs:
  "list_all is_log pre \<Longrightarrow> uninstall_inv s \<Longrightarrow> uninstall_inv (emit (uninstall_on pkg) pre s)"
proof (induction pre arbitrary: s)
  case Nil
  then show ?case by simp
next
  case (Cons e es)
  then obtain l where "e = Log l" by (cases e) simp_all
  with Cons show ?case
    using uninstall_inv_log [of s pkg l] by simp
qed

lemma uninstall_not_installed_step:
  "uninstall_inv s \<Longrightarrow> log_id l = ''not-installed'' \<Longrightarrow>
     promise (uninstall_on pkg (Log l) s) = Resolved JNull"
  by (auto simp: uninstall_inv_def uninstall_on_log_def promise_defer_resolve)

lemma uninstall_begin_inv: "uninstall_inv (uninstall_begin pkg)"
  by (simp add: uninstall_inv_def uninstall_begin_def begin_call_def)


lemma info_logs_ignored: "emit (info_on pkg) (map Log ls) s = s"
  by (induction ls) (simp_all add: info_on_log_def)


lemma getConfigFile_settles: "promise (getConfigFile parse fs) \<noteq> Pending"
  by (simp add: getConfigFile_def getConfigFile_callback_def getConfigFile_begin_def
        begin_call_def promise_defer_resolve promise_defer_reject
        split: prod.splits option.splits sum.splits)

lemma setConfigFile_settles: "promise (snd (setConfigFile stringify config fs)) \<noteq> Pending"
  by (simp add: setConfigFile_def setConfigFile_callback_def setConfigFile_begin_def
        begin_call_def promise_defer_resolve promise_defer_reject
        split: prod.splits option.splits sum.splits jsval.splits)


subsection \<open>Every call settles exactly once\<close>

text \<open>
  C1. For each of the six command methods and every sequence of events made of zero or more
  \<open>log\<close> events followed by exactly one \<open>error\<close> or \<open>end\<close>, the state of the returned
  future changes exactly once, from pending to resolved or rejected, and that state is the one
  the call ends with; a second \<open>resolve\<close> or \<open>reject\<close> (the \<open>end\<close> handler of \<open>uninstall\<close>
  after a \<open>not-installed\<close> notification) changes nothing. The futures of \<open>getConfigFile\<close>
  and \<open>setConfigFile\<close> are settled by the one callback of the file system, whatever it
  reports.
\<close>

theorem future_settles_exactly_once:
  "(terminated evs \<longrightarrow>
      settles_exactly_once (history c evs) \<and> last (history c evs) = promise (run c evs))
   \<and> settles_exactly_once [promise getConfigFile_begin, promise (getConfigFile parse fs)]
   \<and> settles_exactly_once
        [promise setConfigFile_begin, promise (snd (setConfigFile stringify config fs))]"
proof (intro conjI impI)
  assume "terminated evs"
  then show "settles_exactly_once (history c evs)"
    and "last (history c evs) = promise (run c evs)"
    using command_settles_exactly_once [of evs c] by simp_all
next
  have "promise getConfigFile_begin = Pending"
    by (simp add: getConfigFile_begin_def begin_call_def)
  then show "settles_exactly_once [promise getConfigFile_begin, promise (getConfigFile parse fs)]"
    using getConfigFile_settles [of parse fs] by (simp add: settles_exactly_once_def)
next
  have "promise setConfigFile_begin = Pending"
    by (simp add: setConfigFile_begin_def begin_call_def)
  then show "settles_exactly_once
        [promise setConfigFile_begin, promise (snd (setConfigFile stringify config fs))]"
    using setConfigFile_settles [of stringify config fs] by (simp add: settles_exactly_once_def)
qed


theorem future_settles_exactly_once_witness:
  "terminated
     [Log \<lparr>log_id = ''not-installed'', log_message = ''jquery'', log_resolver = None\<rparr>,
      End (JStr ''jquery'')]
   \<and> settles_exactly_once
       (history (Uninstall ''jquery'')
          [Log \<lparr>log_id = ''not-installed'', log_message = ''jquery'', log_resolver = None\<rparr>,
           End (JStr ''jquery'')])
   \<and> history (Uninstall ''jquery'')
          [Log \<lparr>log_id = ''not-installed'', log_message = ''jquery'', log_resolver = None\<rparr>,
           End (JStr ''jquery'')]
       = [Pending, Resolved JNull, Resolved JNull]
   \<and> settles_exactly_once
        [promise getConfigFile_begin,
         promise (getConfigFile JSON_parse
                    \<lparr>bower_json = Some ''{'', read_fault = None, write_fault = None\<rparr>)]
   \<and> settles_exactly_once
        [promise setConfigFile_begin,
         promise (snd (setConfigFile JSON_stringify (JObj [(''name'', JStr ''app'')])
                    \<lparr>bower_json = Some ''{'', read_fault = None, write_fault = None\<rparr>))]"
proof -
  have h: "history (Uninstall ''jquery'')
          [Log \<lparr>log_id = ''not-installed'', log_message = ''jquery'', log_resolver = None\<rparr>,
           End (JStr ''jquery'')]
       = [Pending, Resolved JNull, Resolved JNull]"
    by (simp add: history_def uninstall_begin_def begin_call_def uninstall_on_log_def
          uninstall_on_end_def defer_resolve_def logger_line_def continue_line_def)
  have t: "terminated
     [Log \<lparr>log_id = ''not-installed'', log_message = ''jquery'', log_resolver = None\<rparr>,
      End (JStr ''jquery'')]"
    by simp
  note inst = future_settles_exactly_once
      [of "[Log \<lparr>log_id = ''not-installed'', log_message = ''jquery'', log_resolver = None\<rparr>,
            End (JStr ''jquery'')]"
          "Uninstall ''jquery''" JSON_parse
          "\<lparr>bower_json = Some ''{'', read_fault = None, write_fault = None\<rparr>"
          JSON_stringify "JObj [(''name'', JStr ''app'')]"]
  from inst t h show ?thesis by blast
qed


subsection \<open>uninstall of a package that is not installed\<close>

text \<open>
  C2. When the command of an \<open>uninstall\<close> call emits a \<open>log\<close> event whose id is
  \<open>not-installed\<close> (after \<open>log\<close> events only), the returned future is resolved with \<open>null\<close>,
  whatever events follow: an \<open>end\<close>, an \<open>error\<close>, or none.
\<close>

theorem uninstall_not_installed_resolves_null:
  assumes "list_all is_log pre" and "log_id l = ''not-installed''"
  shows "promise (uninstall pkg (pre @ Log l # post)) = Resolved JNull"
proof -
  let ?s = "emit (uninstall_on pkg) pre (uninstall_begin pkg)"
  have "uninstall_inv ?s"
    using assms(1) uninstall_begin_inv by (rule uninstall_inv_logs)
  then have step: "promise (uninstall_on pkg (Log l) ?s) = Resolved JNull"
    using assms(2) by (rule uninstall_not_installed_step)
  then have "promise (uninstall_on pkg (Log l) ?s) \<noteq> Pending" by simp
  from settled_no_change [OF this, of "Uninstall pkg" post] step
  show ?thesis by (simp add: uninstall_def emit_append)
qed


theorem uninstall_not_installed_resolves_null_witness:
  "list_all is_log [Log \<lparr>log_id = ''resolve'', log_message = ''jquery'', log_resolver = None\<rparr>]
   \<and> promise (uninstall ''jquery''
        ([Log \<lparr>log_id = ''resolve'', log_message = ''jquery'', log_resolver = None\<rparr>]
         @ Log \<lparr>log_id = ''not-installed'', log_message = ''jquery'', log_resolver = None\<rparr>
         # [Error \<lparr>code = ''EUNKNOWN'', message = ''failed''\<rparr>])) = Resolved JNull"
  using uninstall_not_installed_resolves_null
    [of "[Log \<lparr>log_id = ''resolve'', log_message = ''jquery'', log_resolver = None\<rparr>]"
        "\<lparr>log_id = ''not-installed'', log_message = ''jquery'', log_resolver = None\<rparr>"
        "''jquery''" "[Error \<lparr>code = ''EUNKNOWN'', message = ''failed''\<rparr>]"]
  by simp


subsection \<open>info\<close>

text \<open>
  C3. An \<open>info\<close> call that ends with an \<open>error\<close> event resolves with \<open>null\<close> when the code
  of the error is \<open>ENOTFOUND\<close> (the lookup miss) and rejects with the error object for every
  other code; one that ends with \<open>end\<close> resolves with the emitted result.
\<close>

theorem info_outcomes:
  "(code e = ''ENOTFOUND'' \<longrightarrow> promise (info pkg (map Log ls @ [Error e])) = Resolved JNull)
   \<and> (code e \<noteq> ''ENOTFOUND'' \<longrightarrow>
        promise (info pkg (map Log ls @ [Error e])) = Rejected (RError e))
   \<and> promise (info pkg (map Log ls @ [End result])) = Resolved result"
  by (simp add: info_def emit_append info_logs_ignored info_on_error_def info_on_end_def
        promise_defer_resolve promise_defer_reject info_begin_def begin_call_def)

theorem info_outcomes_witness:
  "code \<lparr>code = ''ENOTFOUND'', message = ''Package nothing not found''\<rparr> = ''ENOTFOUND''
   \<and> promise (info ''nothing''
        (map Log [\<lparr>log_id = ''not-cached'', log_message = ''nothing'', log_resolver = None\<rparr>]
         @ [Error \<lparr>code = ''ENOTFOUND'', message = ''Package nothing not found''\<rparr>]))
       = Resolved JNull
   \<and> promise (info ''nothing''
        (map Log [\<lparr>log_id = ''not-cached'', log_message = ''nothing'', log_resolver = None\<rparr>]
         @ [End (JObj [(''name'', JStr ''jquery'')])]))
       = Resolved (JObj [(''name'', JStr ''jquery'')])"
  using info_outcomes
    [of "\<lparr>code = ''ENOTFOUND'', message = ''Package nothing not found''\<rparr>" "''nothing''"
        "[\<lparr>log_id = ''not-cached'', log_message = ''nothing'', log_resolver = None\<rparr>]"
        "JObj [(''name'', JStr ''jquery'')]"]
  by simp

subsection \<open>Progress notifications\<close>

lemma logged_logger_line [simp]: "logged (logger_line l args s) = logged s @ [Line l args]"
  by (simp add: logger_line_def)

lemma logged_continue_line [simp]: "logged (continue_line args s) = logged s @ [Continue args]"
  by (simp add: continue_line_def)

lemma logged_throw [simp]: "logged (throw x s) = logged s"
  by (simp add: throw_def)

lemma logged_defer_resolve [simp]: "logged (defer_resolve v s) = logged s"
  by (simp add: defer_resolve_def split: promise_state.splits)

lemma logged_defer_reject [simp]: "logged (defer_reject r s) = logged s"
  by (simp add: defer_reject_def split: promise_state.splits)

lemma installAll_on_keeps_lines: "set (logged s) \<subseteq> set (logged (installAll_on e s))"
  by (cases e)
     (auto simp: installAll_on_log_def installAll_on_error_def installAll_on_end_def Let_def
        split: option.splits)

lemma listPackages_on_keeps_lines: "set (logged s) \<subseteq> set (logged (listPackages_on e s))"
  by (cases e)
     (auto simp: listPackages_on_log_def listPackages_on_error_def listPackages_on_end_def)

lemma emit_keeps_lines:
  assumes "\<And>e s. set (logged s) \<subseteq> set (logged (h e s))"
  shows "set (logged s) \<subseteq> set (logged (emit h evs s))"
proof (induction evs arbitrary: s)
  case Nil
  show ?case by simp
next
  case (Cons e es)
  have "set (logged s) \<subseteq> set (logged (h e s))" by (rule assms)
  also have "\<dots> \<subseteq> set (logged (emit h es (h e s)))" by (rule Cons.IH)
  finally show ?case by simp
qed

lemma installAll_on_log_line:
  "Line LTrace [Txt ''BowerManager'', Txt ''^cINSTALL^:'',
                Txt (''id: '' @ log_id l @ '', message: '' @ log_message l)]
     \<in> set (logged (installAll_on_log l s))"
  by (simp add: installAll_on_log_def Let_def split: option.splits)

lemma listPackages_on_log_line:
  "Line LTrace [Txt ''BowerManager'', Txt (log_id l @ '': '' @ log_message l)]
     \<in> set (logged (listPackages_on_log l s))"
  by (simp add: listPackages_on_log_def)

lemma contains_nil: "contains t []"
  by (cases t) simp_all

lemma contains_self_prefix: "contains (p @ t) p"
  by (cases p) (simp_all add: contains_nil)

lemma contains_append_left: "contains t p \<Longrightarrow> contains (a @ t) p"
  by (induction a) simp_all

lemma contains_middle: "contains (a @ p @ b) p"
  by (rule contains_append_left) (rule contains_self_prefix)

lemma contains_end: "contains (a @ p) p"
  using contains_middle [of a p "[]"] by simp

lemma list_ex_member: "x \<in> set xs \<Longrightarrow> P x \<Longrightarrow> list_ex P xs"
  by (auto simp: list_ex_iff)

lemma thrown_simps [simp]:
  "thrown (throw x s) = thrown s @ [x]"
  "thrown (defer_reject r s) = thrown s"
  "thrown (defer_resolve v s) = thrown s"
  by (simp_all add: throw_def defer_reject_def defer_resolve_def split: promise_state.splits)

lemma thrown_logger_line [simp]: "thrown (logger_line lv args s) = thrown s"
  by (simp add: logger_line_def)

lemma thrown_continue_line [simp]: "thrown (continue_line args s) = thrown s"
  by (simp add: continue_line_def)

lemma installAll_on_log_effect:
  "(log_id l \<noteq> ''cached'' \<longrightarrow>
      logged (installAll_on (Log l) s)
        = logged s
          @ [Line LTrace [Txt ''BowerManager'', Txt ''^cINSTALL^:'',
                          Txt (''id: '' @ log_id l @ '', message: '' @ log_message l)],
             Line LFileInfo [Txt ''BowerManager'', Txt ''^cINSTALL^:'',
                             Txt (''id: '' @ log_id l @ '', message: '' @ log_message l), LogObj l]]
      \<and> thrown (installAll_on (Log l) s) = thrown s)
   \<and> (log_id l = ''cached'' \<and> log_resolver l = Some r \<longrightarrow>
      logged (installAll_on (Log l) s)
        = logged s
          @ [Line LTrace [Txt ''BowerManager'', Txt ''^cINSTALL^:'',
                          Txt (''id: '' @ log_id l @ '', message: '' @ log_message l)],
             Line LTrace [Txt ''BowerManager'', Txt ''^cINSTALL^:'',
                          Txt (''Found cache, package: '' @ resolver_name r @ '', source: ''
                               @ resolver_source r @ '', target: '' @ resolver_target r)],
             Line LFileInfo [Txt ''BowerManager'', Txt ''^cINSTALL^:'',
                             Txt (''id: '' @ log_id l @ '', message: '' @ log_message l), LogObj l]]
      \<and> thrown (installAll_on (Log l) s) = thrown s)
   \<and> (log_id l = ''cached'' \<and> log_resolver l = None \<longrightarrow>
      logged (installAll_on (Log l) s)
        = logged s
          @ [Line LTrace [Txt ''BowerManager'', Txt ''^cINSTALL^:'',
                          Txt (''id: '' @ log_id l @ '', message: '' @ log_message l)]]
      \<and> thrown (installAll_on (Log l) s)
        = thrown s @ [TypeError ''Cannot read property of undefined''])"
  by (simp add: installAll_on_log_def Let_def)

lemma listPackages_on_log_effect:
  "logged (listPackages_on (Log l) s)
     = logged s @ [Line LTrace [Txt ''BowerManager'', Txt (log_id l @ '': '' @ log_message l)]]
   \<and> thrown (listPackages_on (Log l) s) = thrown s"
  by (simp add: listPackages_on_log_def)

lemma uninstall_on_log_effect:
  "(log_id l \<noteq> ''not-installed'' \<longrightarrow> uninstall_on pkg (Log l) s = s)
   \<and> (log_id l = ''not-installed'' \<and> continueLog s \<longrightarrow>
        logged (uninstall_on pkg (Log l) s)
          = logged s
            @ [Continue [Txt ''^gok^:''],
               Line LWarn [Txt ''BowerManager'',
                           Txt ([CHR 0x27] @ pkg @ [CHR 0x27]
                                @ '' is not installed. Any change done'')]]
        \<and> thrown (uninstall_on pkg (Log l) s) = thrown s
        \<and> \<not> continueLog (uninstall_on pkg (Log l) s))
   \<and> (log_id l = ''not-installed'' \<and> \<not> continueLog s \<longrightarrow>
        logged (uninstall_on pkg (Log l) s) = logged s
        \<and> thrown (uninstall_on pkg (Log l) s)
          = thrown s @ [TypeError ''continueLog is not a function''])"
  by (simp add: uninstall_on_log_def defer_resolve_def thrown_simps split: promise_state.splits)

lemma notifications_in_the_log:
  "Line LTrace [Txt ''BowerManager'', Txt ''^cINSTALL^:'',
                Txt (''id: '' @ log_id l @ '', message: '' @ log_message l)]
     \<in> set (logged (installAll (pre @ Log l # post)))
   \<and> list_ex (entry_records l) (logged (installAll (pre @ Log l # post)))
   \<and> Line LTrace [Txt ''BowerManager'', Txt (log_id l @ '': '' @ log_message l)]
     \<in> set (logged (listPackages (pre @ Log l # post)))
   \<and> list_ex (entry_records l) (logged (listPackages (pre @ Log l # post)))
   \<and> install_on pkg (Log l) s = s
   \<and> info_on pkg (Log l) s = s
   \<and> search_on query (Log l) s = s
   \<and> (log_id l \<noteq> ''not-installed'' \<longrightarrow> uninstall_on pkg (Log l) s = s)"
proof -
  let ?a = "Line LTrace [Txt ''BowerManager'', Txt ''^cINSTALL^:'',
                Txt (''id: '' @ log_id l @ '', message: '' @ log_message l)]"
  let ?b = "Line LTrace [Txt ''BowerManager'', Txt (log_id l @ '': '' @ log_message l)]"
  have "?a \<in> set (logged (installAll_on_log l (emit installAll_on pre installAll_begin)))"
    by (rule installAll_on_log_line)
  moreover have "set (logged (installAll_on_log l (emit installAll_on pre installAll_begin)))
      \<subseteq> set (logged (emit installAll_on post
            (installAll_on_log l (emit installAll_on pre installAll_begin))))"
    by (rule emit_keeps_lines) (rule installAll_on_keeps_lines)
  ultimately have a: "?a \<in> set (logged (installAll (pre @ Log l # post)))"
    by (auto simp: installAll_def emit_append)
  have "?b \<in> set (logged (listPackages_on_log l (emit listPackages_on pre listPackages_begin)))"
    by (rule listPackages_on_log_line)
  moreover have "set (logged (listPackages_on_log l (emit listPackages_on pre listPackages_begin)))
      \<subseteq> set (logged (emit listPackages_on post
            (listPackages_on_log l (emit listPackages_on pre listPackages_begin))))"
    by (rule emit_keeps_lines) (rule listPackages_on_keeps_lines)
  ultimately have b: "?b \<in> set (logged (listPackages (pre @ Log l # post)))"
    by (auto simp: listPackages_def emit_append)
  have ra: "entry_records l ?a"
    using contains_middle [of "''id: ''" "log_id l" "'', message: '' @ log_message l"]
      contains_end [of "''id: '' @ log_id l @ '', message: ''" "log_message l"]
    by simp
  have rb: "entry_records l ?b"
    using contains_self_prefix [of "log_id l" "'': '' @ log_message l"]
      contains_end [of "log_id l @ '': ''" "log_message l"]
    by simp
  from a ra have a': "list_ex (entry_records l) (logged (installAll (pre @ Log l # post)))"
    by (rule list_ex_member)
  from b rb have b': "list_ex (entry_records l) (logged (listPackages (pre @ Log l # post)))"
    by (rule list_ex_member)
  have rest: "install_on pkg (Log l) s = s" "info_on pkg (Log l) s = s"
    "search_on query (Log l) s = s"
    "log_id l \<noteq> ''not-installed'' \<longrightarrow> uninstall_on pkg (Log l) s = s"
    by (simp_all add: install_on_log_def info_on_log_def search_on_log_def uninstall_on_log_def)
  from a a' b b' rest show ?thesis by blast
qed


text \<open>
  C8, as the code has it. \<open>installAll\<close> logs for every \<open>log\<close> event of its command a trace
  line \<open>id: <id>, message: <message>\<close> and a line with the same text and the notification
  itself on the file channel, with a \<open>Found cache\<close> trace line in between for a \<open>cached\<close>
  notification; a \<open>cached\<close> notification without a resolver throws after the first line.
  \<open>listPackages\<close> logs the trace line \<open><id>: <message>\<close>. The lines stay in the log of the
  call. \<open>install\<close>, \<open>info\<close> and \<open>search\<close> leave the call as it is: nothing is logged.
  \<open>uninstall\<close> logs no line that holds the notification: on the first \<open>not-installed\<close>
  notification it writes the \<open>^gok^:\<close> continuation and a warning that names the package, on
  a repeated one it logs nothing and throws, and any other notification leaves the call as it
  is.
\<close>

theorem progress_notifications_logged:
  "Line LTrace [Txt ''BowerManager'', Txt ''^cINSTALL^:'',
                Txt (''id: '' @ log_id l @ '', message: '' @ log_message l)]
     \<in> set (logged (installAll (pre @ Log l # post)))
   \<and> list_ex (entry_records l) (logged (installAll (pre @ Log l # post)))
   \<and> Line LTrace [Txt ''BowerManager'', Txt (log_id l @ '': '' @ log_message l)]
     \<in> set (logged (listPackages (pre @ Log l # post)))
   \<and> list_ex (entry_records l) (logged (listPackages (pre @ Log l # post)))
   \<and> install_on pkg (Log l) s = s
   \<and> info_on pkg (Log l) s = s
   \<and> search_on query (Log l) s = s
   \<and> (log_id l \<noteq> ''not-installed'' \<longrightarrow> uninstall_on pkg (Log l) s = s)
   \<and> (log_id l = ''not-installed'' \<and> continueLog s \<longrightarrow>
        logged (uninstall_on pkg (Log l) s)
          = logged s
            @ [Continue [Txt ''^gok^:''],
               Line LWarn [Txt ''BowerManager'',
                           Txt ([CHR 0x27] @ pkg @ [CHR 0x27]
                                @ '' is not installed. Any change done'')]]
        \<and> thrown (uninstall_on pkg (Log l) s) = thrown s
        \<and> \<not> continueLog (uninstall_on pkg (Log l) s))
   \<and> (log_id l = ''not-installed'' \<and> \<not> continueLog s \<longrightarrow>
        logged (uninstall_on pkg (Log l) s) = logged s
        \<and> thrown (uninstall_on pkg (Log l) s)
          = thrown s @ [TypeError ''continueLog is not a function''])
   \<and> logged (listPackages_on (Log l) s)
       = logged s @ [Line LTrace [Txt ''BowerManager'', Txt (log_id l @ '': '' @ log_message l)]]
   \<and> (log_id l \<noteq> ''cached'' \<longrightarrow>
      logged (installAll_on (Log l) s)
        = logged s
          @ [Line LTrace [Txt ''BowerManager'', Txt ''^cINSTALL^:'',
                          Txt (''id: '' @ log_id l @ '', message: '' @ log_message l)],
             Line LFileInfo [Txt ''BowerManager'', Txt ''^cINSTALL^:'',
                             Txt (''id: '' @ log_id l @ '', message: '' @ log_message l), LogObj l]])
   \<and> (log_id l = ''cached'' \<and> log_resolver l = Some r \<longrightarrow>
      logged (installAll_on (Log l) s)
        = logged s
          @ [Line LTrace [Txt ''BowerManager'', Txt ''^cINSTALL^:'',
                          Txt (''id: '' @ log_id l @ '', message: '' @ log_message l)],
             Line LTrace [Txt ''BowerManager'', Txt ''^cINSTALL^:'',
                          Txt (''Found cache, package: '' @ resolver_name r @ '', source: ''
                               @ resolver_source r @ '', target: '' @ resolver_target r)],
             Line LFileInfo [Txt ''BowerManager'', Txt ''^cINSTALL^:'',
                             Txt (''id: '' @ log_id l @ '', message: '' @ log_message l), LogObj l]])
   \<and> (log_id l = ''cached'' \<and> log_resolver l = None \<longrightarrow>
      logged (installAll_on (Log l) s)
        = logged s
          @ [Line LTrace [Txt ''BowerManager'', Txt ''^cINSTALL^:'',
                          Txt (''id: '' @ log_id l @ '', message: '' @ log_message l)]]
      \<and> thrown (installAll_on (Log l) s)
        = thrown s @ [TypeError ''Cannot read property of undefined''])"
  using notifications_in_the_log [of l pre post pkg s query]
    uninstall_on_log_effect [of l pkg s]
    listPackages_on_log_effect [of l s]
    installAll_on_log_effect [of l s r]
  by blast

theorem progress_notifications_logged_witness:
  "logged (installAll_on
      (Log \<lparr>log_id = ''resolve'', log_message = ''jquery#*'', log_resolver = None\<rparr>)
      installAll_begin)
     = logged installAll_begin
       @ [Line LTrace [Txt ''BowerManager'', Txt ''^cINSTALL^:'',
                       Txt ''id: resolve, message: jquery#*''],
          Line LFileInfo [Txt ''BowerManager'', Txt ''^cINSTALL^:'',
                          Txt ''id: resolve, message: jquery#*'',
                          LogObj \<lparr>log_id = ''resolve'', log_message = ''jquery#*'',
                                  log_resolver = None\<rparr>]]
   \<and> logged (installAll_on
      (Log \<lparr>log_id = ''cached'', log_message = ''jquery#*'', log_resolver = None\<rparr>)
      installAll_begin)
     = logged installAll_begin
       @ [Line LTrace [Txt ''BowerManager'', Txt ''^cINSTALL^:'',
                       Txt ''id: cached, message: jquery#*'']]
   \<and> uninstall_on ''jquery''
       (Log \<lparr>log_id = ''resolve'', log_message = ''jquery#*'', log_resolver = None\<rparr>)
       (uninstall_begin ''jquery'')
     = uninstall_begin ''jquery''
   \<and> continueLog (uninstall_begin ''jquery'')
   \<and> logged (uninstall_on ''jquery''
       (Log \<lparr>log_id = ''not-installed'', log_message = ''jquery'', log_resolver = None\<rparr>)
       (uninstall_begin ''jquery''))
     = logged (uninstall_begin ''jquery'')
       @ [Continue [Txt ''^gok^:''],
          Line LWarn [Txt ''BowerManager'',
                      Txt ([CHR 0x27] @ ''jquery'' @ [CHR 0x27]
                           @ '' is not installed. Any change done'')]]
   \<and> logged (uninstall_on ''jquery''
       (Log \<lparr>log_id = ''not-installed'', log_message = ''jquery'', log_resolver = None\<rparr>)
       ((uninstall_begin ''jquery'')\<lparr>continueLog := False\<rparr>))
     = logged (uninstall_begin ''jquery'')
   \<and> thrown (uninstall_on ''jquery''
       (Log \<lparr>log_id = ''not-installed'', log_message = ''jquery'', log_resolver = None\<rparr>)
       ((uninstall_begin ''jquery'')\<lparr>continueLog := False\<rparr>))
     = [TypeError ''continueLog is not a function'']"
proof -
  have c: "continueLog (uninstall_begin ''jquery'')"
    "thrown (uninstall_begin ''jquery'') = []"
    by (simp_all add: uninstall_begin_def begin_call_def)
  note a = progress_notifications_logged
    [where l = "\<lparr>log_id = ''resolve'', log_message = ''jquery#*'', log_resolver = None\<rparr>"
       and s = installAll_begin]
  note b = progress_notifications_logged
    [where l = "\<lparr>log_id = ''cached'', log_message = ''jquery#*'', log_resolver = None\<rparr>"
       and s = installAll_begin]
  note d = progress_notifications_logged
    [where l = "\<lparr>log_id = ''resolve'', log_message = ''jquery#*'', log_resolver = None\<rparr>"
       and pkg = "''jquery''" and s = "uninstall_begin ''jquery''"]
  note e = progress_notifications_logged
    [where l = "\<lparr>log_id = ''not-installed'', log_message = ''jquery'', log_resolver = None\<rparr>"
       and pkg = "''jquery''" and s = "uninstall_begin ''jquery''"]
  note f = progress_notifications_logged
    [where l = "\<lparr>log_id = ''not-installed'', log_message = ''jquery'', log_resolver = None\<rparr>"
       and pkg = "''jquery''" and s = "(uninstall_begin ''jquery'')\<lparr>continueLog := False\<rparr>"]
  from a b d e f c show ?thesis by simp
qed

text \<open>
  C8, as the claim states it, fails for \<open>install\<close>: the call logs its first line and the
  continuation of \<open>end\<close>, and no line for the notification delivered in between.
\<close>

theorem install_ignores_progress_notifications:
  "logged (install ''jquery''
     [Log \<lparr>log_id = ''resolve'', log_message = ''jquery#*'', log_resolver = None\<rparr>, End JNull])
   = [Line LInfo [Txt ''BowerManager'',
                  Txt (''attempting to install the package '' @ [CHR 0x27] @ ''jquery'' @ [CHR 0x27] @ ''...'')],
      Continue [Txt ''^gok^:'']]
   \<and> \<not> list_ex (entry_records \<lparr>log_id = ''resolve'', log_message = ''jquery#*'', log_resolver = None\<rparr>)
       (logged (install ''jquery''
          [Log \<lparr>log_id = ''resolve'', log_message = ''jquery#*'', log_resolver = None\<rparr>, End JNull]))"
  by (simp add: install_def install_begin_def begin_call_def install_on_log_def install_on_end_def)

section \<open>Properties of the configuration file methods\<close>

lemma begin_call_simps [simp]:
  "promise (begin_call msg) = Pending" "thrown (begin_call msg) = []"
  by (simp_all add: begin_call_def)

lemma JSON_parse_open_brace: "JSON_parse ''{'' = Inl (SyntaxError ''Unexpected token in JSON'')"
  by (simp add: JSON_parse_def skip_ws_def is_ws_def)

lemma stringify_example: "JSON_stringify example_config 2 = Inr example_text"
  unfolding example_config_def example_text_def by code_simp

lemma parse_example: "JSON_parse example_text = Inr example_config"
  unfolding example_config_def example_text_def by code_simp

lemma parse_not_json: "JSON_parse ''not json'' = Inl (SyntaxError ''Unexpected token in JSON'')"
  by code_simp

subsection \<open>getConfigFile\<close>

text \<open>
  C4, as the code has it. When the read succeeds and the text is not valid JSON, the future is
  rejected with \<open>null\<close>, the value of the callback's \<open>error\<close> parameter, and not with the
  exception \<open>JSON.parse\<close> threw; the callback then throws a \<open>TypeError\<close> of its own,
  reading \<open>error.message\<close>.
\<close>

theorem getConfigFile_invalid_json:
  assumes "read_fault fs = None" and "bower_json fs = Some data" and "parse data = Inl e"
  shows "promise (getConfigFile parse fs) = Rejected RNull
         \<and> thrown (getConfigFile parse fs) = [TypeError ''Cannot read property message of null'']"
  using assms
  by (simp add: getConfigFile_def readFile_def getConfigFile_callback_def getConfigFile_begin_def
        promise_defer_reject)

theorem getConfigFile_invalid_json_witness:
  "JSON_parse ''{'' = Inl (SyntaxError ''Unexpected token in JSON'')
   \<and> promise (getConfigFile JSON_parse
        \<lparr>bower_json = Some ''{'', read_fault = None, write_fault = None\<rparr>) = Rejected RNull
   \<and> thrown (getConfigFile JSON_parse
        \<lparr>bower_json = Some ''{'', read_fault = None, write_fault = None\<rparr>)
       = [TypeError ''Cannot read property message of null'']"
  using JSON_parse_open_brace
    getConfigFile_invalid_json
      [of "\<lparr>bower_json = Some ''{'', read_fault = None, write_fault = None\<rparr>" "''{''"
          JSON_parse "SyntaxError ''Unexpected token in JSON''"]
  by simp

text \<open>
  C5, as the code has it. A read that fails with code \<open>ENOENT\<close> (the file is missing)
  resolves with \<open>null\<close>; a read that succeeds on valid JSON resolves with the text of the
  file as it was read, not with the value parsed from it; any other read failure rejects with
  the error of the file system.
\<close>

theorem getConfigFile_outcomes:
  "(read_fault fs = None \<and> bower_json fs = None \<longrightarrow>
      promise (getConfigFile parse fs) = Resolved JNull)
   \<and> (read_fault fs = Some err \<and> code err = ''ENOENT'' \<longrightarrow>
      promise (getConfigFile parse fs) = Resolved JNull)
   \<and> (read_fault fs = None \<and> bower_json fs = Some data \<and> parse data = Inr v \<longrightarrow>
      promise (getConfigFile parse fs) = Resolved (JStr data))
   \<and> (read_fault fs = Some err \<and> code err \<noteq> ''ENOENT'' \<longrightarrow>
      promise (getConfigFile parse fs) = Rejected (RError err))"
  by (simp add: getConfigFile_def readFile_def getConfigFile_callback_def getConfigFile_begin_def
        promise_defer_reject promise_defer_resolve)

theorem getConfigFile_outcomes_witness:
  "promise (getConfigFile JSON_parse \<lparr>bower_json = None, read_fault = None, write_fault = None\<rparr>)
     = Resolved JNull
   \<and> promise (getConfigFile JSON_parse
        \<lparr>bower_json = Some example_text, read_fault = None, write_fault = None\<rparr>)
     = Resolved (JStr example_text)
   \<and> promise (getConfigFile JSON_parse
        \<lparr>bower_json = Some example_text,
         read_fault = Some \<lparr>code = ''EACCES'', message = ''permission denied''\<rparr>,
         write_fault = None\<rparr>)
     = Rejected (RError \<lparr>code = ''EACCES'', message = ''permission denied''\<rparr>)"
  using parse_example
    getConfigFile_outcomes
      [where fs = "\<lparr>bower_json = None, read_fault = None, write_fault = None\<rparr>"
         and parse = JSON_parse]
    getConfigFile_outcomes
      [where fs = "\<lparr>bower_json = Some example_text, read_fault = None, write_fault = None\<rparr>"
         and parse = JSON_parse and data = example_text and v = example_config]
    getConfigFile_outcomes
      [where fs = "\<lparr>bower_json = Some example_text,
            read_fault = Some \<lparr>code = ''EACCES'', message = ''permission denied''\<rparr>,
            write_fault = None\<rparr>"
         and err = "\<lparr>code = ''EACCES'', message = ''permission denied''\<rparr>"
         and parse = JSON_parse]
  by simp

text \<open>
  C5, as the claim states it, fails on the file that holds the example text: the future is
  not resolved with the value the text parses to.
\<close>

theorem getConfigFile_resolves_raw_text:
  "\<not> (\<exists>v. JSON_parse example_text = Inr v
          \<and> promise (getConfigFile JSON_parse
                \<lparr>bower_json = Some example_text, read_fault = None, write_fault = None\<rparr>)
            = Resolved v)"
  using parse_example
  by (simp add: getConfigFile_def readFile_def getConfigFile_callback_def getConfigFile_begin_def
        promise_defer_resolve example_config_def)

subsection \<open>setConfigFile, and reading back what it wrote\<close>

lemma config_round_trip_runtime:
  assumes "typeof config \<noteq> ''string''"
    and "stringify config 2 = Inr written"
    and "parse written = Inr config"
    and "write_fault fs = None"
    and "read_fault fs = None"
  shows "promise (snd (setConfigFile stringify config fs)) = Resolved (JBool True)
         \<and> bower_json (fst (setConfigFile stringify config fs)) = Some written
         \<and> (\<exists>content.
               promise (getConfigFile parse (fst (setConfigFile stringify config fs)))
                 = Resolved (JStr content)
               \<and> parse content = Inr config)"
  using assms
  by (simp add: setConfigFile_def writeFile_def setConfigFile_callback_def setConfigFile_begin_def
        getConfigFile_def readFile_def getConfigFile_callback_def getConfigFile_begin_def
        promise_defer_resolve)


text \<open>
  C6. For a value that is not a string, that \<open>JSON.stringify\<close> prints and \<open>JSON.parse\<close>
  reads back (a JSON-serializable value), a \<open>setConfigFile\<close> whose write succeeds resolves
  with \<open>true\<close> and stores the printed text, and a \<open>getConfigFile\<close> whose read succeeds then
  resolves with content whose parsed form is the value. With the reference JSON functions
  this holds of every value that is not a string: they read back whatever they print.
\<close>

theorem config_round_trip:
  "(typeof config \<noteq> ''string'' \<and> stringify config 2 = Inr written \<and> parse written = Inr config
      \<and> write_fault fs = None \<and> read_fault fs = None \<longrightarrow>
      promise (snd (setConfigFile stringify config fs)) = Resolved (JBool True)
      \<and> bower_json (fst (setConfigFile stringify config fs)) = Some written
      \<and> (\<exists>content.
            promise (getConfigFile parse (fst (setConfigFile stringify config fs)))
              = Resolved (JStr content)
            \<and> parse content = Inr config))
   \<and> (typeof config \<noteq> ''string'' \<and> write_fault fs = None \<and> read_fault fs = None \<longrightarrow>
      promise (snd (setConfigFile JSON_stringify config fs)) = Resolved (JBool True)
      \<and> (\<exists>content.
            promise (getConfigFile JSON_parse (fst (setConfigFile JSON_stringify config fs)))
              = Resolved (JStr content)
            \<and> JSON_parse content = Inr config))"
proof (intro conjI impI)
  assume h: "typeof config \<noteq> ''string'' \<and> stringify config 2 = Inr written
      \<and> parse written = Inr config \<and> write_fault fs = None \<and> read_fault fs = None"
  then have rt: "promise (snd (setConfigFile stringify config fs)) = Resolved (JBool True)
      \<and> bower_json (fst (setConfigFile stringify config fs)) = Some written
      \<and> (\<exists>content.
            promise (getConfigFile parse (fst (setConfigFile stringify config fs)))
              = Resolved (JStr content)
            \<and> parse content = Inr config)"
    by (intro config_round_trip_runtime) simp_all
  from rt show "promise (snd (setConfigFile stringify config fs)) = Resolved (JBool True)"
    by blast
  from rt show "bower_json (fst (setConfigFile stringify config fs)) = Some written"
    by blast
  from rt show "\<exists>content.
            promise (getConfigFile parse (fst (setConfigFile stringify config fs)))
              = Resolved (JStr content)
            \<and> parse content = Inr config"
    by blast
next
  assume h: "typeof config \<noteq> ''string'' \<and> write_fault fs = None \<and> read_fault fs = None"
  obtain printed where printed: "JSON_stringify config 2 = Inr printed"
    "JSON_parse printed = Inr config"
    using JSON_parse_stringify [of config 2] by blast
  from h printed
  have rt: "promise (snd (setConfigFile JSON_stringify config fs)) = Resolved (JBool True)
      \<and> bower_json (fst (setConfigFile JSON_stringify config fs)) = Some printed
      \<and> (\<exists>content.
            promise (getConfigFile JSON_parse (fst (setConfigFile JSON_stringify config fs)))
              = Resolved (JStr content)
            \<and> JSON_parse content = Inr config)"
    by (intro config_round_trip_runtime) simp_all
  from rt show "promise (snd (setConfigFile JSON_stringify config fs)) = Resolved (JBool True)"
    by blast
  from rt show "\<exists>content.
            promise (getConfigFile JSON_parse (fst (setConfigFile JSON_stringify config fs)))
              = Resolved (JStr content)
            \<and> JSON_parse content = Inr config"
    by blast
qed

theorem config_round_trip_witness:
  "typeof example_config \<noteq> ''string''
   \<and> JSON_stringify example_config 2 = Inr example_text
   \<and> JSON_parse example_text = Inr example_config
   \<and> promise (snd (setConfigFile JSON_stringify example_config
         \<lparr>bower_json = None, read_fault = None, write_fault = None\<rparr>)) = Resolved (JBool True)
   \<and> bower_json (fst (setConfigFile JSON_stringify example_config
         \<lparr>bower_json = None, read_fault = None, write_fault = None\<rparr>)) = Some example_text
   \<and> (\<exists>content.
         promise (getConfigFile JSON_parse (fst (setConfigFile JSON_stringify example_config
           \<lparr>bower_json = None, read_fault = None, write_fault = None\<rparr>)))
           = Resolved (JStr content)
         \<and> JSON_parse content = Inr example_config)"
proof -
  have ty: "typeof example_config \<noteq> ''string''"
    by (simp add: example_config_def)
  note rt = config_round_trip
    [where config = example_config and stringify = JSON_stringify and written = example_text
       and parse = JSON_parse
       and fs = "\<lparr>bower_json = None, read_fault = None, write_fault = None\<rparr>"]
  from ty stringify_example parse_example rt show ?thesis by simp
qed

text \<open>
  C10. \<open>setConfigFile\<close> writes a string as it is, whatever it holds (the method never parses
  it), and writes any other value as \<open>JSON.stringify\<close> prints it with an indentation of 2; a
  successful write resolves with \<open>true\<close>.
\<close>

theorem setConfigFile_writes:
  "(write_fault fs = None \<longrightarrow>
      bower_json (fst (setConfigFile stringify (JStr raw) fs)) = Some raw
      \<and> promise (snd (setConfigFile stringify (JStr raw) fs)) = Resolved (JBool True))
   \<and> (write_fault fs = None \<and> typeof config \<noteq> ''string'' \<and> stringify config 2 = Inr out \<longrightarrow>
      bower_json (fst (setConfigFile stringify config fs)) = Some out
      \<and> promise (snd (setConfigFile stringify config fs)) = Resolved (JBool True))"
  by (simp add: setConfigFile_def writeFile_def setConfigFile_callback_def setConfigFile_begin_def
        promise_defer_resolve)

theorem setConfigFile_writes_witness:
  "JSON_parse ''not json'' = Inl (SyntaxError ''Unexpected token in JSON'')
   \<and> bower_json (fst (setConfigFile JSON_stringify (JStr ''not json'')
        \<lparr>bower_json = None, read_fault = None, write_fault = None\<rparr>)) = Some ''not json''
   \<and> promise (snd (setConfigFile JSON_stringify (JStr ''not json'')
        \<lparr>bower_json = None, read_fault = None, write_fault = None\<rparr>)) = Resolved (JBool True)
   \<and> bower_json (fst (setConfigFile JSON_stringify example_config
        \<lparr>bower_json = None, read_fault = None, write_fault = None\<rparr>)) = Some example_text
   \<and> promise (snd (setConfigFile JSON_stringify example_config
        \<lparr>bower_json = None, read_fault = None, write_fault = None\<rparr>)) = Resolved (JBool True)"
proof -
  have ty: "typeof example_config \<noteq> ''string''"
    by (simp add: example_config_def)
  note w = setConfigFile_writes
    [where fs = "\<lparr>bower_json = None, read_fault = None, write_fault = None\<rparr>"
       and stringify = JSON_stringify and raw = "''not json''" and config = example_config
       and out = example_text]
  from ty stringify_example parse_not_json w show ?thesis by simp
qed

section \<open>Properties of the socket base service\<close>

lemma srv_line_simps [simp]:
  "connections (srv_line l msg srv) = connections srv"
  "disconnect_calls (srv_line l msg srv) = disconnect_calls srv"
  "srv_name (srv_line l msg srv) = srv_name srv"
  "srv_log (srv_line l msg srv) = srv_log srv @ [Line l [Txt (srv_name srv), Txt msg]]"
  by (simp_all add: srv_line_def)

lemma socket_disconnect_simps:
  "disconnect_calls (socket_disconnect c srv) = disconnect_calls srv @ [socket_id c]"
  "srv_name (socket_disconnect c srv) = srv_name srv"
  "connections (socket_disconnect c srv) =
     (if sync_close c then map_delete (socket_id c) (connections srv) else connections srv)"
  by (simp_all add: socket_disconnect_def onClientDisconnect_def Let_def)

lemma disconnect_loop_effect:
  assumes "distinct (map fst todo)"
    and "list_all (\<lambda>kv. fst kv = socket_id (snd kv)) todo"
    and "set todo \<subseteq> set (connections srv)"
  shows "disconnect_calls (disconnect_loop todo srv) = disconnect_calls srv @ map fst todo
         \<and> srv_name (disconnect_loop todo srv) = srv_name srv
         \<and> connections (disconnect_loop todo srv)
             = filter (\<lambda>kv. fst kv \<notin> fst ` set (filter (\<lambda>kv. sync_close (snd kv)) todo))
                 (connections srv)"
  using assms
proof (induction todo arbitrary: srv)
  case Nil
  show ?case by simp
next
  case (Cons entry rest)
  obtain k c where entry: "entry = (k, c)" by (cases entry)
  from Cons.prems entry have k: "k = socket_id c" and fresh: "k \<notin> fst ` set rest"
    and dist: "distinct (map fst rest)"
    and wf: "list_all (\<lambda>kv. fst kv = socket_id (snd kv)) rest"
    and here: "(k, c) \<in> set (connections srv)"
    and sub: "set rest \<subseteq> set (connections srv)"
    by auto
  from here have present: "map_of (connections srv) k \<noteq> None"
    by (metis fst_conv image_eqI map_of_eq_None_iff)
  define s1 where
    "s1 = srv_line LTrace (''Disconecting '' @ [CHR 0x27] @ socket_id c @ [CHR 0x27]) srv"
  define s2 where "s2 = socket_disconnect c s1"
  have s1: "connections s1 = connections srv" "disconnect_calls s1 = disconnect_calls srv"
    "srv_name s1 = srv_name srv"
    by (simp_all add: s1_def)
  from present obtain live where "map_of (connections srv) k = Some live" by auto
  then have step: "disconnect_loop (entry # rest) srv = disconnect_loop rest s2"
    by (simp add: entry s1_def s2_def)
  have conns2: "connections s2
      = (if sync_close c then map_delete k (connections srv) else connections srv)"
    by (simp add: s2_def socket_disconnect_simps k s1)
  have calls2: "disconnect_calls s2 = disconnect_calls srv @ [k]"
    by (simp add: s2_def socket_disconnect_simps k s1)
  have name2: "srv_name s2 = srv_name srv"
    by (simp add: s2_def socket_disconnect_simps s1)
  have sub2: "set rest \<subseteq> set (connections s2)"
    using sub fresh by (auto simp: conns2 map_delete_def)
  note ih = Cons.IH [OF dist wf sub2]
  have calls: "disconnect_calls (disconnect_loop rest s2)
      = disconnect_calls srv @ map fst (entry # rest)"
    using ih by (simp add: calls2 entry)
  have nm: "srv_name (disconnect_loop rest s2) = srv_name srv"
    using ih by (simp add: name2)
  have conns: "connections (disconnect_loop rest s2)
      = filter (\<lambda>kv. fst kv \<notin> fst ` set (filter (\<lambda>kv. sync_close (snd kv)) (entry # rest)))
          (connections srv)"
  proof (cases "sync_close c")
    case True
    then show ?thesis
      using ih by (auto simp: conns2 entry map_delete_def intro!: filter_cong)
  next
    case False
    then show ?thesis
      using ih by (simp add: conns2 entry)
  qed
  show ?case unfolding step by (intro conjI calls nm conns)
qed

lemma filter_closed_keys:
  assumes "distinct (map fst xs)"
  shows "filter (\<lambda>kv. fst kv \<notin> fst ` set (filter P xs)) xs = filter (\<lambda>kv. \<not> P kv) xs"
proof (rule filter_cong [OF refl])
  fix kv assume kv: "kv \<in> set xs"
  have "fst kv \<in> fst ` set (filter P xs) \<longleftrightarrow> P kv"
  proof
    assume "fst kv \<in> fst ` set (filter P xs)"
    then obtain x where x: "x \<in> set xs" "P x" "fst x = fst kv" by auto
    from assms x(1) kv x(3) have "x = kv"
      by (metis distinct_map inj_on_eq_iff)
    with x(2) show "P kv" by simp
  next
    assume "P kv"
    with kv show "fst kv \<in> fst ` set (filter P xs)" by auto
  qed
  then show "(fst kv \<notin> fst ` set (filter P xs)) = (\<not> P kv)" by simp
qed

lemma map_set_registry:
  assumes "distinct (map fst m)" and "list_all (\<lambda>kv. fst kv = socket_id (snd kv)) m"
  shows "distinct (map fst (map_set (socket_id sock) sock m))
         \<and> list_all (\<lambda>kv. fst kv = socket_id (snd kv)) (map_set (socket_id sock) sock m)"
proof (cases "map_of m (socket_id sock) = None")
  case True
  then have "socket_id sock \<notin> fst ` set m" by (simp add: map_of_eq_None_iff)
  with assms True show ?thesis by (simp add: map_set_def)
next
  case False
  let ?f = "\<lambda>kv. if fst kv = socket_id sock then (socket_id sock, sock) else kv"
  have keys: "map fst (map ?f m) = map fst m"
    by (induction m) auto
  have d: "distinct (map fst (map ?f m))"
    using assms(1) by (simp only: keys)
  have w: "list_all (\<lambda>kv. fst kv = socket_id (snd kv)) (map ?f m)"
    using assms(2) by (auto simp: list_all_iff)
  have eq: "map_set (socket_id sock) sock m = map ?f m"
    using False by (auto simp: map_set_def)
  show ?thesis unfolding eq by (intro conjI d w)
qed

lemma onClientConnect_registry:
  assumes "distinct (map fst (connections srv))"
    and "list_all (\<lambda>kv. fst kv = socket_id (snd kv)) (connections srv)"
  shows "distinct (map fst (connections (onClientConnect sock srv)))
         \<and> list_all (\<lambda>kv. fst kv = socket_id (snd kv)) (connections (onClientConnect sock srv))"
  using map_set_registry [OF assms, of sock] by (simp add: onClientConnect_def Let_def)

lemma onClientDisconnect_registry:
  assumes "distinct (map fst (connections srv))"
    and "list_all (\<lambda>kv. fst kv = socket_id (snd kv)) (connections srv)"
  shows "distinct (map fst (connections (onClientDisconnect sock srv)))
         \<and> list_all (\<lambda>kv. fst kv = socket_id (snd kv)) (connections (onClientDisconnect sock srv))"
  using assms
  by (simp add: onClientDisconnect_def Let_def map_delete_def distinct_map_filter list_all_iff)

text \<open>
  What \<open>disconnectAll\<close> does to any registry (its keys distinct, each socket under its own
  identifier, as \<open>_onClientConnect\<close> builds it): it calls \<open>disconnect\<close> on every registered
  connection, once and in the order of registration, it leaves the registry empty, and the
  number in the line it logs last is the size of the registry when the loop has ended, which
  counts the connections whose \<open>disconnect\<close> event has not removed them yet.
\<close>

lemma disconnectAll_effect:
  assumes "distinct (map fst (connections srv))"
    and "list_all (\<lambda>kv. fst kv = socket_id (snd kv)) (connections srv)"
  shows "disconnect_calls (disconnectAll srv) = disconnect_calls srv @ map fst (connections srv)
         \<and> connections (disconnectAll srv) = []
         \<and> length (connections (disconnectAll srv)) = 0
         \<and> last (srv_log (disconnectAll srv))
             = Line LInfo
                 [Txt (srv_name srv),
                  Txt (''Disconected ''
                       @ decimal (length (filter (\<lambda>kv. \<not> sync_close (snd kv)) (connections srv))))]
         \<and> (list_all (\<lambda>kv. \<not> sync_close (snd kv)) (connections srv) \<longrightarrow>
               last (srv_log (disconnectAll srv))
                 = Line LInfo
                     [Txt (srv_name srv),
                      Txt (''Disconected '' @ decimal (length (connections srv)))])"
proof -
  let ?s1 = "srv_line LTrace ''Disconecting all...'' srv"
  let ?s2 = "disconnect_loop (connections ?s1) ?s1"
  have "set (connections ?s1) \<subseteq> set (connections ?s1)" by simp
  with assms have eff:
    "disconnect_calls ?s2 = disconnect_calls srv @ map fst (connections srv)
     \<and> srv_name ?s2 = srv_name srv
     \<and> connections ?s2
         = filter (\<lambda>kv. fst kv \<notin> fst ` set (filter (\<lambda>kv. sync_close (snd kv)) (connections srv)))
             (connections srv)"
    using disconnect_loop_effect [of "connections ?s1" ?s1] by simp
  then have left: "connections ?s2 = filter (\<lambda>kv. \<not> sync_close (snd kv)) (connections srv)"
    using filter_closed_keys [OF assms(1), of "\<lambda>kv. sync_close (snd kv)"] by simp
  have all_later: "filter (\<lambda>kv. \<not> sync_close (snd kv)) (connections srv) = connections srv"
    if "list_all (\<lambda>kv. \<not> sync_close (snd kv)) (connections srv)"
    using that by (simp add: list_all_iff)
  from eff left all_later show ?thesis
    by (simp add: disconnectAll_def Let_def)
qed


lemma closing_srv_connections:
  "connections closing_srv
     = [(''a1'', \<lparr>socket_id = ''a1'', sync_close = True\<rparr>),
        (''b2'', \<lparr>socket_id = ''b2'', sync_close = True\<rparr>),
        (''c3'', \<lparr>socket_id = ''c3'', sync_close = True\<rparr>)]"
  by (simp add: closing_srv_def onClientConnect_def Let_def map_set_def)

lemma closing_srv_name: "srv_name closing_srv = ''bower''"
  by (simp add: closing_srv_def onClientConnect_def Let_def)

lemma closing_srv_calls: "disconnect_calls closing_srv = []"
  by (simp add: closing_srv_def onClientConnect_def Let_def)

lemma decimal_0: "decimal 0 = ''0''"
  by code_simp

text \<open>
  C7, as the code has it. On a service whose three clients have sockets that close at once,
  \<open>disconnectAll\<close> calls \<open>disconnect\<close> on each of the three and leaves the registry empty,
  and the line it logs last is \<open>Disconected 0\<close>: when the size of the registry is read, after
  the loop, every call has already run \<open>_onClientDisconnect\<close>, which removes the connection.
\<close>

theorem disconnectAll_logs_size_after_loop:
  "length (connections closing_srv) = 3
   \<and> disconnect_calls (disconnectAll closing_srv) = [''a1'', ''b2'', ''c3'']
   \<and> connections (disconnectAll closing_srv) = []
   \<and> last (srv_log (disconnectAll closing_srv))
       = Line LInfo [Txt ''bower'', Txt ''Disconected 0'']"
proof -
  have d: "distinct (map fst (connections closing_srv))"
    by (simp add: closing_srv_connections)
  have w: "list_all (\<lambda>kv. fst kv = socket_id (snd kv)) (connections closing_srv)"
    by (simp add: closing_srv_connections)
  from disconnectAll_effect [OF d w] show ?thesis
    by (simp add: closing_srv_connections closing_srv_name closing_srv_calls decimal_0)
qed

section \<open>Properties of the error codes\<close>

text \<open>
  C9, as the code has it. The table has twelve names; its third is spelled \<open>unknow\<close> and
  its eighth \<open>entityToLarge\<close>, so a lookup under \<open>unknown\<close> or \<open>entityTooLarge\<close> finds
  nothing.
\<close>

theorem ERROR_CODES_misspelled:
  "map_of ERROR_CODES ''unknown'' = None
   \<and> map_of ERROR_CODES ''entityTooLarge'' = None
   \<and> map_of ERROR_CODES ''unknow'' = Some 20
   \<and> map_of ERROR_CODES ''entityToLarge'' = Some 413
   \<and> map fst ERROR_CODES
       = [''invalid'', ''resourceNotFound'', ''unknow'', ''badRequest'', ''notAuthorized'',
          ''notFound'', ''timeout'', ''entityToLarge'', ''methodNotAllowed'', ''tooManyRequests'',
          ''error'', ''notAvailable'']"
  by (simp add: ERROR_CODES_def)

end
